theory Spec2Isabelle
  imports Complex_Main
begin

section \<open>Exceptions of the platform\<close>

text \<open>
  The TypeScript sources run in a browser. Every exception that the modelled code can meet
  is a value of \<open>js_error\<close>. A handler that may be left by an exception returns a pair:
  the exception (if any) and the state reached when it was raised, since assignments made
  before a \<^verbatim>\<open>throw\<close> stay in place.
\<close>

datatype js_error =
    MissingElement string
  | SyntaxError
  | TypeError
  | InvalidStateError
  | InvalidAccessError

section \<open>The output sink: \<^verbatim>\<open>webapp/src/ui.ts\<close> and \<^verbatim>\<open>clearOut\<close> of \<^verbatim>\<open>webapp/src/main.ts\<close>\<close>

text \<open>
  \<^verbatim>\<open>buffer\<close> and \<^verbatim>\<open>rafPending\<close> are the two module variables of \<^verbatim>\<open>ui.ts\<close>.
  The element \<^verbatim>\<open>#out\<close> is represented by its \<^verbatim>\<open>textContent\<close>; \<open>None\<close> stands for a
  document without that element, where \<^verbatim>\<open>qs\<close> throws. \<open>rafQueue\<close> counts the callbacks
  registered with \<^verbatim>\<open>requestAnimationFrame\<close> and not yet run (all of them are the same
  closure). \<open>writes\<close> is a log of the writes made to the element, kept to count paint
  operations; the code never reads it.
\<close>

datatype dom_write = AppendText string | SetText string | SetScroll

record sink =
  buffer :: string
  rafPending :: bool
  out :: "string option"
  rafQueue :: nat
  writes :: "dom_write list"

definition sink_init :: "string option \<Rightarrow> sink" where
  "sink_init t = \<lparr>buffer = [], rafPending = False, out = t, rafQueue = 0, writes = []\<rparr>"

text \<open>\<^verbatim>\<open>appendOut(s)\<close>: accumulate, and schedule the render pass unless one is pending.\<close>

definition appendOut :: "sink \<Rightarrow> string \<Rightarrow> sink" where
  "appendOut s f =
     (let s1 = s\<lparr>buffer := buffer s @ f\<rparr>
      in if \<not> rafPending s1
         then s1\<lparr>rafPending := True, rafQueue := Suc (rafQueue s1)\<rparr>
         else s1)"

text \<open>
  The closure passed to \<^verbatim>\<open>requestAnimationFrame\<close>. Its first statement calls
  \<^verbatim>\<open>el.out()\<close>, which throws when the element is missing; nothing has been assigned then.
\<close>

definition render :: "sink \<Rightarrow> js_error option \<times> sink" where
  "render s =
     (case out s of
        None \<Rightarrow> (Some (MissingElement ''#out''), s)
      | Some t \<Rightarrow>
          (None, s\<lparr>out := Some (t @ buffer s),
                   writes := writes s @ [AppendText (buffer s), SetScroll],
                   buffer := [],
                   rafPending := False\<rparr>))"

text \<open>
  One display-refresh tick: the callbacks registered before the tick run once each; an
  exception of one callback is reported by the browser and does not stop the others.
\<close>

fun run_callbacks :: "nat \<Rightarrow> sink \<Rightarrow> sink" where
  "run_callbacks 0 s = s"
| "run_callbacks (Suc n) s = run_callbacks n (snd (render s))"

definition frame_tick :: "sink \<Rightarrow> sink" where
  "frame_tick s = run_callbacks (rafQueue s) (s\<lparr>rafQueue := 0\<rparr>)"

text \<open>\<^verbatim>\<open>clearOut()\<close> of \<^verbatim>\<open>main.ts\<close>: a single assignment to \<^verbatim>\<open>textContent\<close>.\<close>

definition clearOut :: "sink \<Rightarrow> js_error option \<times> sink" where
  "clearOut s =
     (case out s of
        None \<Rightarrow> (Some (MissingElement ''#out''), s)
      | Some t \<Rightarrow> (None, s\<lparr>out := Some [], writes := writes s @ [SetText []]\<rparr>))"

text \<open>The sink as driven by its three entry points.\<close>

datatype sink_event = Append string | Clear | Frame

fun sink_step :: "sink \<Rightarrow> sink_event \<Rightarrow> sink" where
  "sink_step s (Append f) = appendOut s f"
| "sink_step s Clear = snd (clearOut s)"
| "sink_step s Frame = frame_tick s"

definition sink_run :: "sink \<Rightarrow> sink_event list \<Rightarrow> sink" where
  "sink_run s evs = foldl sink_step s evs"

definition paints :: "sink \<Rightarrow> nat" where
  "paints s = length (filter (\<lambda>w. case w of AppendText _ \<Rightarrow> True | _ \<Rightarrow> False) (writes s))"

text \<open>
  What holds between two entry points while the element exists: the armed flag says
  whether a callback is registered, and an unarmed sink has an empty buffer.
\<close>

definition sink_inv :: "sink \<Rightarrow> bool" where
  "sink_inv s \<longleftrightarrow>
     out s \<noteq> None \<and>
     rafQueue s = (if rafPending s then 1 else 0) \<and>
     (\<not> rafPending s \<longrightarrow> buffer s = [])"

section \<open>Inbound frames: the values \<^verbatim>\<open>JSON.parse\<close> returns\<close>

text \<open>
  \<^verbatim>\<open>JSON.parse\<close> is a function of the platform; it is a parameter of the model
  (\<open>json_parse\<close> below, \<open>None\<close> when it throws \<^verbatim>\<open>SyntaxError\<close>). Its results are the
  JSON values. Of a number only the test against zero is used, so numbers are integers here.
  An object is the list of its own properties.
\<close>

datatype json =
    JNull
  | JBool bool
  | JNum int
  | JStr string
  | JArr "json list"
  | JObj "(string \<times> json) list"

text \<open>
  Reading the property \<^verbatim>\<open>type\<close> or \<^verbatim>\<open>data\<close> of a parsed value: \<open>None\<close> is
  \<^verbatim>\<open>undefined\<close>. Reading a property of \<^verbatim>\<open>null\<close> throws \<^verbatim>\<open>TypeError\<close>; numbers, strings,
  booleans and arrays have no property of either name.
\<close>

fun get_prop :: "json \<Rightarrow> string \<Rightarrow> js_error + json option" where
  "get_prop JNull k = Inl TypeError"
| "get_prop (JObj kvs) k = Inr (map_of kvs k)"
| "get_prop v k = Inr None"

fun truthy :: "json option \<Rightarrow> bool" where
  "truthy None = False"
| "truthy (Some JNull) = False"
| "truthy (Some (JBool b)) = b"
| "truthy (Some (JNum n)) = (n \<noteq> 0)"
| "truthy (Some (JStr s)) = (s \<noteq> [])"
| "truthy (Some (JArr vs)) = True"
| "truthy (Some (JObj kvs)) = True"

text \<open>The expression \<^verbatim>\<open>v || d\<close>.\<close>

definition or_else :: "json option \<Rightarrow> json \<Rightarrow> json" where
  "or_else v d = (case v of None \<Rightarrow> d | Some x \<Rightarrow> if truthy (Some x) then x else d)"

section \<open>Numbers\<close>

text \<open>
  A value of the type \<^verbatim>\<open>number\<close> is a double: a finite value, an infinity or
  \<^verbatim>\<open>NaN\<close>. The finite doubles are real numbers, and a finite \<open>Num r\<close> stands for any
  of them. The attempt counter \<^verbatim>\<open>retries\<close> only ever holds a natural number, so it is a
  \<open>nat\<close>, and the three operations the code applies to it are written out on doubles:
  \<^item> \<open>below n c\<close> is the comparison \<^verbatim>\<open>this.retries < cap\<close>, false against \<^verbatim>\<open>NaN\<close>;
  \<^item> \<open>js_succ n\<close> is \<^verbatim>\<open>this.retries++\<close>: exact below \<open>2^53\<close>, where the sum
    \<open>2^53 + 1\<close> rounds back to \<open>2^53\<close>;
  \<^item> \<open>backoff n\<close> is \<^verbatim>\<open>500 * Math.pow(2, n)\<close>: the product \<open>500 * 2^n\<close> is a double
    while it does not exceed the largest one, that is for \<open>n \<le> 1015\<close>, and is
    \<^verbatim>\<open>Infinity\<close> from \<open>n = 1016\<close> on.
\<close>

datatype js_num = Num real | PosInf | NegInf | NaN

fun below :: "nat \<Rightarrow> js_num \<Rightarrow> bool" where
  "below n (Num r) = (real n < r)"
| "below n PosInf = True"
| "below n NegInf = False"
| "below n NaN = False"

definition js_succ :: "nat \<Rightarrow> nat" where
  "js_succ n = (if n < 9007199254740992 then Suc n else n)"

definition backoff :: "nat \<Rightarrow> js_num" where
  "backoff n = (if n \<le> 1015 then Num (500 * 2 ^ n) else PosInf)"

text \<open>The comparison \<open>n > c\<close> on the same values, used to say that a counter exceeds a budget.\<close>

fun above :: "nat \<Rightarrow> js_num \<Rightarrow> bool" where
  "above n (Num r) = (r < real n)"
| "above n PosInf = False"
| "above n NegInf = True"
| "above n NaN = False"

section \<open>The session manager: \<^verbatim>\<open>webapp/src/ws.ts\<close>\<close>

text \<open>
  \<^verbatim>\<open>WSOpts\<close>. The serialised init object (\<^verbatim>\<open>JSON.stringify(this.opts.init)\<close>) is the field
  \<open>init\<close>. A callback is known by the calls made to it, which are logged; the optional
  ones are present or absent, and all are taken to return normally. \<open>maxRetries\<close> and
  \<open>heartbeatMs\<close> are numbers as the caller passes them, unchecked.
\<close>

record opts =
  url :: string
  init :: string
  onStart :: bool
  onEnd :: bool
  onError :: bool
  maxRetries :: "js_num option"
  heartbeatMs :: "js_num option"

datatype call = OnToken json | OnStart | OnEnd | OnError json

text \<open>What the code reads from the page and the platform.\<close>

record env =
  protocol :: string
  host :: string
  url_ok :: "string \<Rightarrow> bool"
  json_parse :: "string \<Rightarrow> json option"

text \<open>
  A \<^verbatim>\<open>WebSocket\<close> object: its \<^verbatim>\<open>readyState\<close> and the frames transmitted on it so far.
  \<open>InitPayload\<close> is what the \<^verbatim>\<open>send\<close> of the open handler transmits, \<open>Ping\<close> what the
  heartbeat closure transmits.
\<close>

datatype ready_state = CONNECTING | OPEN | CLOSING | CLOSED

datatype frame = InitPayload string | Ping

record socket =
  sock_url :: string
  readyState :: ready_state
  sent :: "frame list"

text \<open>
  The active timers of the window: \<^verbatim>\<open>setInterval\<close> and \<^verbatim>\<open>setTimeout\<close> draw their
  handles from one counter that starts at 1, and \<^verbatim>\<open>clearInterval\<close> removes a handle of
  either kind. The only interval closure is the heartbeat, the only timeout closure is
  \<^verbatim>\<open>() => this.open()\<close>. Time is not modelled: an active timer may fire at any turn,
  and the period or delay it was set with is kept with it. An interval also carries the
  index of the socket whose open event set it; the code keeps no such link, the index
  serves to state which socket a heartbeat belongs to.
\<close>

datatype timer = Interval js_num nat | Timeout js_num

text \<open>
  The four private fields of \<^verbatim>\<open>WebSocketManager\<close> (\<open>ws\<close> is an index into \<open>sockets\<close>),
  followed by the platform state they act on. \<open>calls\<close> logs the callback invocations,
  \<open>delays\<close> the delays passed to \<^verbatim>\<open>setTimeout\<close>, \<open>thrown\<close> the exceptions that left
  \<^verbatim>\<open>open\<close>, \<^verbatim>\<open>stop\<close> or an event handler.
\<close>

record sys =
  ws :: "nat option"
  retries :: nat
  closedByClient :: bool
  heartbeatTimer :: "nat option"
  sockets :: "socket list"
  timers :: "(nat \<times> timer) list"
  nextTimer :: nat
  calls :: "call list"
  delays :: "js_num list"
  thrown :: "js_error list"

definition sys_init :: sys where
  "sys_init =
     \<lparr>ws = None, retries = 0, closedByClient = False, heartbeatTimer = None,
      sockets = [], timers = [], nextTimer = 1, calls = [], delays = [], thrown = []\<rparr>"

subsection \<open>Platform operations\<close>

definition set_timer :: "timer \<Rightarrow> sys \<Rightarrow> nat \<times> sys" where
  "set_timer k s =
     (nextTimer s, s\<lparr>timers := timers s @ [(nextTimer s, k)], nextTimer := Suc (nextTimer s)\<rparr>)"

definition clear_timer :: "nat \<Rightarrow> sys \<Rightarrow> sys" where
  "clear_timer t s = s\<lparr>timers := filter (\<lambda>p. fst p \<noteq> t) (timers s)\<rparr>"

definition set_state :: "nat \<Rightarrow> ready_state \<Rightarrow> sys \<Rightarrow> sys" where
  "set_state i st s = s\<lparr>sockets := (sockets s)[i := (sockets s ! i)\<lparr>readyState := st\<rparr>]\<rparr>"

text \<open>
  \<^verbatim>\<open>WebSocket.send\<close>: throws \<^verbatim>\<open>InvalidStateError\<close> while connecting, transmits when open,
  and silently drops the data when closing or closed.
\<close>

definition ws_send :: "nat \<Rightarrow> frame \<Rightarrow> sys \<Rightarrow> js_error option \<times> sys" where
  "ws_send i f s =
     (if i < length (sockets s) then
        (case readyState (sockets s ! i) of
           CONNECTING \<Rightarrow> (Some InvalidStateError, s)
         | OPEN \<Rightarrow>
             (None, s\<lparr>sockets := (sockets s)[i := (sockets s ! i)\<lparr>sent := sent (sockets s ! i) @ [f]\<rparr>]\<rparr>)
         | CLOSING \<Rightarrow> (None, s)
         | CLOSED \<Rightarrow> (None, s))
      else (Some TypeError, s))"

text \<open>
  \<^verbatim>\<open>WebSocket.close(code, reason)\<close>: rejects a code other than 1000 and 3000..4999 and a
  reason longer than 123 bytes; otherwise starts the closing handshake of a connecting or
  open socket and does nothing on a closing or closed one.
\<close>

definition ws_close :: "nat \<Rightarrow> string \<Rightarrow> nat \<Rightarrow> sys \<Rightarrow> js_error option \<times> sys" where
  "ws_close code reason i s =
     (if \<not> (code = 1000 \<or> (3000 \<le> code \<and> code \<le> 4999)) then (Some InvalidAccessError, s)
      else if 123 < length reason then (Some SyntaxError, s)
      else if i < length (sockets s) \<and>
              (readyState (sockets s ! i) = CONNECTING \<or> readyState (sockets s ! i) = OPEN)
           then (None, set_state i CLOSING s)
           else (None, s))"

definition invoke :: "call \<Rightarrow> sys \<Rightarrow> sys" where
  "invoke c s = s\<lparr>calls := calls s @ [c]\<rparr>"

text \<open>The optional call \<^verbatim>\<open>cb?.(...)\<close>.\<close>

definition invoke_opt :: "bool \<Rightarrow> call \<Rightarrow> sys \<Rightarrow> sys" where
  "invoke_opt present c s = (if present then invoke c s else s)"

subsection \<open>The methods and handlers of \<^verbatim>\<open>WebSocketManager\<close>\<close>

text \<open>\<^verbatim>\<open>if (this.heartbeatTimer) window.clearInterval(this.heartbeatTimer)\<close>.\<close>

definition clear_heartbeat :: "sys \<Rightarrow> sys" where
  "clear_heartbeat s =
     (case heartbeatTimer s of
        None \<Rightarrow> s
      | Some t \<Rightarrow> if t \<noteq> 0 then clear_timer t s else s)"

text \<open>
  \<^verbatim>\<open>open()\<close>: builds the address, constructs the socket (the constructor throws
  \<^verbatim>\<open>SyntaxError\<close> on an address it rejects, before anything is assigned) and stores it in
  \<^verbatim>\<open>this.ws\<close>. The four handlers it installs are the same closures for every socket.
\<close>

definition ws_address :: "env \<Rightarrow> opts \<Rightarrow> string" where
  "ws_address e opts =
     (if protocol e = ''https:'' then ''wss'' else ''ws'') @ ''://'' @ host e @ url opts"

definition manager_open :: "env \<Rightarrow> opts \<Rightarrow> sys \<Rightarrow> js_error option \<times> sys" where
  "manager_open e opts s =
     (if url_ok e (ws_address e opts)
      then (None,
            s\<lparr>sockets := sockets s @
                 [\<lparr>sock_url = ws_address e opts, readyState = CONNECTING, sent = []\<rparr>],
              ws := Some (length (sockets s))\<rparr>)
      else (Some SyntaxError, s))"

text \<open>
  \<^verbatim>\<open>this.ws.onopen\<close>, run for the open event of socket \<open>i\<close>. The send goes to
  \<^verbatim>\<open>this.ws\<close>, whichever socket fired the event; \<open>i\<close> is only recorded with the
  interval.
\<close>

definition onopen :: "opts \<Rightarrow> nat \<Rightarrow> sys \<Rightarrow> js_error option \<times> sys" where
  "onopen opts i s =
     (let s1 = s\<lparr>retries := 0, closedByClient := False\<rparr>
      in case ws s1 of
           None \<Rightarrow> (Some TypeError, s1)
         | Some j \<Rightarrow>
             (case ws_send j (InitPayload (init opts)) s1 of
                (Some err, s2) \<Rightarrow> (Some err, s2)
              | (None, s2) \<Rightarrow>
                  (let s3 = invoke_opt (onStart opts) OnStart s2;
                       hb = (case heartbeatMs opts of None \<Rightarrow> Num 20000 | Some h \<Rightarrow> h);
                       (t, s4) = set_timer (Interval hb i) s3
                   in (None, s4\<lparr>heartbeatTimer := Some t\<rparr>))))"

text \<open>The heartbeat closure passed to \<^verbatim>\<open>setInterval\<close>.\<close>

definition heartbeat :: "sys \<Rightarrow> js_error option \<times> sys" where
  "heartbeat s =
     (case ws s of
        None \<Rightarrow> (None, s)
      | Some i \<Rightarrow>
          if i < length (sockets s) \<and> readyState (sockets s ! i) = OPEN
          then ws_send i Ping s
          else (None, s))"

text \<open>
  The body of the \<^verbatim>\<open>try\<close> block of \<^verbatim>\<open>this.ws.onmessage\<close> after the parse, and the handler
  itself, whose \<^verbatim>\<open>catch\<close> swallows every exception.
\<close>

definition dispatch :: "opts \<Rightarrow> json \<Rightarrow> js_error + call list" where
  "dispatch opts m =
     (case get_prop m ''type'' of
        Inl err \<Rightarrow> Inl err
      | Inr ty \<Rightarrow>
          if ty = Some (JStr ''token'') then
            (case get_prop m ''data'' of
               Inl err \<Rightarrow> Inl err
             | Inr d \<Rightarrow> Inr [OnToken (or_else d (JStr []))])
          else if ty = Some (JStr ''start'') then Inr (if onStart opts then [OnStart] else [])
          else if ty = Some (JStr ''end'') then Inr (if onEnd opts then [OnEnd] else [])
          else if ty = Some (JStr ''error'') then
            (if onError opts then
               (case get_prop m ''data'' of
                  Inl err \<Rightarrow> Inl err
                | Inr d \<Rightarrow> Inr [OnError (or_else d (JStr ''error''))])
             else Inr [])
          else Inr [])"

definition onmessage :: "env \<Rightarrow> opts \<Rightarrow> string \<Rightarrow> sys \<Rightarrow> js_error option \<times> sys" where
  "onmessage e opts raw s =
     (case json_parse e raw of
        None \<Rightarrow> (None, s)
      | Some m \<Rightarrow>
          (case dispatch opts m of
             Inl err \<Rightarrow> (None, s)
           | Inr cs \<Rightarrow> (None, s\<lparr>calls := calls s @ cs\<rparr>)))"

text \<open>\<^verbatim>\<open>this.ws.onerror\<close>.\<close>

definition onerror :: "opts \<Rightarrow> sys \<Rightarrow> js_error option \<times> sys" where
  "onerror opts s = (None, invoke_opt (onError opts) (OnError (JStr ''ws_error'')) s)"

text \<open>\<^verbatim>\<open>this.ws.onclose\<close>.\<close>

definition retry_cap :: "opts \<Rightarrow> js_num" where
  "retry_cap opts = (case maxRetries opts of None \<Rightarrow> Num 3 | Some m \<Rightarrow> m)"

definition onclose :: "opts \<Rightarrow> sys \<Rightarrow> js_error option \<times> sys" where
  "onclose opts s =
     (let s1 = clear_heartbeat s
      in if \<not> closedByClient s1 then
           (if below (retries s1) (retry_cap opts) then
              (let delay = backoff (retries s1);
                   s2 = s1\<lparr>retries := js_succ (retries s1)\<rparr>;
                   (t, s3) = set_timer (Timeout delay) s2
               in (None, s3\<lparr>delays := delays s3 @ [delay]\<rparr>))
            else (None, s1))
         else (None, s1))"

text \<open>\<^verbatim>\<open>stop()\<close>.\<close>

definition stop :: "sys \<Rightarrow> js_error option \<times> sys" where
  "stop s =
     (let s1 = s\<lparr>closedByClient := True\<rparr>;
          s2 = clear_heartbeat s1
      in case ws s2 of
           None \<Rightarrow> (None, s2)
         | Some i \<Rightarrow> ws_close 1000 ''client stop'' i s2)"

subsection \<open>The event loop\<close>

text \<open>
  One turn of the cooperative scheduler. The caller invokes \<^verbatim>\<open>open\<close> or \<^verbatim>\<open>stop\<close>; a
  connecting socket opens; an open socket delivers a frame; an open socket starts closing
  because the far end began the closing handshake (no handler runs); a socket that is not
  closed reports an error or closes; an active timer fires (an interval stays active, a
  timeout is consumed). \<open>None\<close> means that the event cannot happen in the state. An exception
  that leaves the turn is logged in \<open>thrown\<close>.
\<close>

datatype event =
    Call_open
  | Call_stop
  | Ws_opened nat
  | Ws_message nat string
  | Ws_errored nat
  | Ws_closing nat
  | Ws_closed nat
  | Timer_fire nat

definition finish :: "js_error option \<times> sys \<Rightarrow> sys" where
  "finish r = (case fst r of None \<Rightarrow> snd r | Some err \<Rightarrow> (snd r)\<lparr>thrown := thrown (snd r) @ [err]\<rparr>)"

fun step :: "env \<Rightarrow> opts \<Rightarrow> sys \<Rightarrow> event \<Rightarrow> sys option" where
  "step e opts s Call_open = Some (finish (manager_open e opts s))"
| "step e opts s Call_stop = Some (finish (stop s))"
| "step e opts s (Ws_opened i) =
     (if i < length (sockets s) \<and> readyState (sockets s ! i) = CONNECTING
      then Some (finish (onopen opts i (set_state i OPEN s))) else None)"
| "step e opts s (Ws_message i raw) =
     (if i < length (sockets s) \<and> readyState (sockets s ! i) = OPEN
      then Some (finish (onmessage e opts raw s)) else None)"
| "step e opts s (Ws_errored i) =
     (if i < length (sockets s) \<and> readyState (sockets s ! i) \<noteq> CLOSED
      then Some (finish (onerror opts s)) else None)"
| "step e opts s (Ws_closing i) =
     (if i < length (sockets s) \<and> readyState (sockets s ! i) = OPEN
      then Some (set_state i CLOSING s) else None)"
| "step e opts s (Ws_closed i) =
     (if i < length (sockets s) \<and> readyState (sockets s ! i) \<noteq> CLOSED
      then Some (finish (onclose opts (set_state i CLOSED s))) else None)"
| "step e opts s (Timer_fire t) =
     (case map_of (timers s) t of
        None \<Rightarrow> None
      | Some (Interval ms ow) \<Rightarrow> Some (finish (heartbeat s))
      | Some (Timeout ms) \<Rightarrow> Some (finish (manager_open e opts (clear_timer t s))))"

fun run :: "env \<Rightarrow> opts \<Rightarrow> sys \<Rightarrow> event list \<Rightarrow> sys option" where
  "run e opts s [] = Some s"
| "run e opts s (ev # evs) =
     (case step e opts s ev of None \<Rightarrow> None | Some s' \<Rightarrow> run e opts s' evs)"

text \<open>
  The use \<^verbatim>\<open>main.ts\<close> makes of a manager: \<^verbatim>\<open>open\<close> is called on a session with no socket
  that is not closed and no reconnect pending (there, once on a fresh manager).
\<close>

definition quiescent :: "sys \<Rightarrow> bool" where
  "quiescent s \<longleftrightarrow>
     list_all (\<lambda>c. readyState c = CLOSED) (sockets s) \<and>
     list_all (\<lambda>p. case snd p of Timeout ms \<Rightarrow> False | Interval ms ow \<Rightarrow> True) (timers s)"

fun run_single :: "env \<Rightarrow> opts \<Rightarrow> sys \<Rightarrow> event list \<Rightarrow> sys option" where
  "run_single e opts s [] = Some s"
| "run_single e opts s (ev # evs) =
     (if ev = Call_open \<and> \<not> quiescent s then None
      else case step e opts s ev of None \<Rightarrow> None | Some s' \<Rightarrow> run_single e opts s' evs)"

text \<open>
  The frames a socket may have transmitted: none, or the init payload followed by pings
  only. A connecting socket has transmitted nothing, an open one has started with the
  init payload.
\<close>

definition init_then_pings :: "string \<Rightarrow> frame list \<Rightarrow> bool" where
  "init_then_pings payload fs =
     (case fs of
        [] \<Rightarrow> False
      | f # rest \<Rightarrow> f = InitPayload payload \<and> list_all (\<lambda>g. g = Ping) rest)"

definition frames_ok :: "opts \<Rightarrow> socket \<Rightarrow> bool" where
  "frames_ok opts c =
     (case readyState c of
        CONNECTING \<Rightarrow> sent c = []
      | OPEN \<Rightarrow> init_then_pings (init opts) (sent c)
      | CLOSING \<Rightarrow> sent c = [] \<or> init_then_pings (init opts) (sent c)
      | CLOSED \<Rightarrow> sent c = [] \<or> init_then_pings (init opts) (sent c))"

text \<open>
  What holds of a session used as in \<^verbatim>\<open>main.ts\<close>: every socket but the newest is
  closed, and \<^verbatim>\<open>this.ws\<close> is the newest; and there is no active timer, or only the
  heartbeat set by the socket in \<^verbatim>\<open>this.ws\<close> while that socket is open or closing, or
  only one reconnect timeout while every socket is closed. Timer handles are positive and a stored handle is an issued one.
\<close>

definition all_closed :: "socket list \<Rightarrow> bool" where
  "all_closed cs = list_all (\<lambda>c. readyState c = CLOSED) cs"

definition hb_live :: "sys \<Rightarrow> bool" where
  "hb_live s \<longleftrightarrow>
     (\<exists>t ms. timers s = [(t, Interval ms (length (sockets s) - 1))] \<and>
        heartbeatTimer s = Some t \<and> t \<noteq> 0 \<and> sockets s \<noteq> [] \<and>
        (readyState (last (sockets s)) = OPEN \<or> readyState (last (sockets s)) = CLOSING))"

definition retry_pending :: "sys \<Rightarrow> bool" where
  "retry_pending s \<longleftrightarrow>
     (\<exists>t ms. timers s = [(t, Timeout ms)] \<and> heartbeatTimer s \<noteq> Some t \<and>
        all_closed (sockets s))"

definition single_inv :: "opts \<Rightarrow> sys \<Rightarrow> bool" where
  "single_inv opts s \<longleftrightarrow>
     0 < nextTimer s \<and>
     (\<forall>t. heartbeatTimer s = Some t \<longrightarrow> t < nextTimer s) \<and>
     all_closed (butlast (sockets s)) \<and>
     ws s = (if sockets s = [] then None else Some (length (sockets s) - 1)) \<and>
     list_all (frames_ok opts) (sockets s) \<and>
     (timers s = [] \<or> hb_live s \<or> retry_pending s)"

text \<open>
  A session that has come to rest after \<^verbatim>\<open>stop\<close>: the flag is set, no timer is active and
  no socket is connecting or open.
\<close>

definition halted :: "sys \<Rightarrow> bool" where
  "halted s \<longleftrightarrow>
     closedByClient s \<and> timers s = [] \<and>
     list_all (\<lambda>c. readyState c = CLOSING \<or> readyState c = CLOSED) (sockets s)"

subsection \<open>The session \<^verbatim>\<open>main.ts\<close> creates, and a page to run it on\<close>

text \<open>
  The options of \<^verbatim>\<open>startStream\<close>, for a given serialised init object. \<open>sample_parse\<close>
  agrees with \<^verbatim>\<open>JSON.parse\<close> on the frames it lists and on the text \<^verbatim>\<open>not-json\<close>; it
  serves to run examples only. No general statement below depends on it.
\<close>

definition main_opts :: "string \<Rightarrow> opts" where
  "main_opts payload =
     \<lparr>url = ''/ws/adapt'', init = payload, onStart = True, onEnd = True, onError = True,
      maxRetries = Some (Num 2), heartbeatMs = Some (Num 20000)\<rparr>"

definition sample_parse :: "string \<Rightarrow> json option" where
  \<open>sample_parse raw =
     (if raw = ''{"type":"start"}'' then Some (JObj [(''type'', JStr ''start'')])
      else if raw = ''{"type":"token","data":"Hello"}''
        then Some (JObj [(''type'', JStr ''token''), (''data'', JStr ''Hello'')])
      else if raw = ''{"type":"token"}'' then Some (JObj [(''type'', JStr ''token'')])
      else if raw = ''{"type":"end"}'' then Some (JObj [(''type'', JStr ''end'')])
      else if raw = ''{"type":"error","data":"quota exceeded"}''
        then Some (JObj [(''type'', JStr ''error''), (''data'', JStr ''quota exceeded'')])
      else if raw = ''{"type":"error","data":""}''
        then Some (JObj [(''type'', JStr ''error''), (''data'', JStr [])])
      else if raw = ''{"type":"error"}'' then Some (JObj [(''type'', JStr ''error'')])
      else if raw = ''{"type":"pong"}'' then Some (JObj [(''type'', JStr ''pong'')])
      else if raw = ''null'' then Some JNull
      else None)\<close>

text \<open>
  A session whose sockets all fail to connect: \<^verbatim>\<open>open()\<close>, then \<open>n\<close> times a closure
  followed by the reconnect timeout it scheduled.
\<close>

fun failures :: "nat \<Rightarrow> event list" where
  "failures 0 = [Call_open]"
| "failures (Suc n) = failures n @ [Ws_closed n, Timer_fire (Suc n)]"

definition sample_env :: env where
  "sample_env =
     \<lparr>protocol = ''https:'', host = ''example.org'', url_ok = (\<lambda>u. True),
      json_parse = sample_parse\<rparr>"

section \<open>Properties of the output sink\<close>

lemma sink_inv_init: "sink_inv (sink_init (Some t))"
  by (simp add: sink_inv_def sink_init_def)

lemma sink_inv_appendOut: "sink_inv s \<Longrightarrow> sink_inv (appendOut s f)"
  by (simp add: sink_inv_def appendOut_def Let_def)

lemma sink_inv_clearOut: "sink_inv s \<Longrightarrow> sink_inv (snd (clearOut s))"
  by (auto simp: sink_inv_def clearOut_def split: option.splits)

lemma sink_inv_frame_tick: "sink_inv s \<Longrightarrow> sink_inv (frame_tick s)"
  by (auto simp: sink_inv_def frame_tick_def render_def split: option.splits if_splits)

lemma sink_inv_step: "sink_inv s \<Longrightarrow> sink_inv (sink_step s e)"
  by (cases e) (simp_all add: sink_inv_appendOut sink_inv_clearOut sink_inv_frame_tick)

lemma sink_inv_foldl: "sink_inv s \<Longrightarrow> sink_inv (foldl sink_step s evs)"
  by (induction evs arbitrary: s) (simp_all add: sink_inv_step)

lemma sink_inv_run: "sink_inv (sink_run (sink_init (Some t)) evs)"
  unfolding sink_run_def by (rule sink_inv_foldl [OF sink_inv_init])

text \<open>A burst of appends: only the first one can arm the flag and register a callback.\<close>

lemma appendOut_pending:
  "rafPending s \<Longrightarrow> appendOut s f = s\<lparr>buffer := buffer s @ f\<rparr>"
  by (simp add: appendOut_def Let_def)

lemma foldl_appendOut_pending:
  "rafPending s \<Longrightarrow> foldl appendOut s fs = s\<lparr>buffer := buffer s @ concat fs\<rparr>"
proof (induction fs arbitrary: s)
  case Nil
  then show ?case by simp
next
  case (Cons f fs)
  have "rafPending (s\<lparr>buffer := buffer s @ f\<rparr>)"
    using Cons.prems by simp
  from Cons.IH [OF this] show ?case
    using Cons.prems by (simp add: appendOut_pending)
qed

lemma foldl_appendOut_burst:
  assumes "fs \<noteq> []"
  shows "foldl appendOut s fs =
           s\<lparr>buffer := buffer s @ concat fs,
             rafPending := True,
             rafQueue := (if rafPending s then rafQueue s else Suc (rafQueue s))\<rparr>"
proof -
  from assms obtain f fs' where fs: "fs = f # fs'"
    by (cases fs) auto
  have p: "rafPending (appendOut s f)"
    by (simp add: appendOut_def Let_def)
  show ?thesis
    unfolding fs using foldl_appendOut_pending [OF p, of fs']
    by (simp add: appendOut_def Let_def)
qed

lemma frame_tick_armed:
  assumes "out s = Some t" and "rafQueue s = 1"
  shows "frame_tick s =
           s\<lparr>rafQueue := 0,
             out := Some (t @ buffer s),
             writes := writes s @ [AppendText (buffer s), SetScroll],
             buffer := [],
             rafPending := False\<rparr>"
  using assms by (simp add: frame_tick_def render_def)

text \<open>
  C5. For every burst of \<^verbatim>\<open>appendOut\<close> calls made between two ticks, in any state the
  sink can reach while \<^verbatim>\<open>#out\<close> exists: the burst registers exactly one render callback and
  writes nothing itself; the render pass of the next tick appends to the rendered output the
  buffered text followed by the fragments of the burst in arrival order, empties the buffer,
  disarms the flag, and is the only paint of that tick. When the burst starts unarmed
  (it holds the first append since the last render pass) the buffered text is empty, so
  the appended text is exactly the concatenation of the fragments.
\<close>

theorem appendOut_burst_one_paint:
  assumes "s = sink_run (sink_init (Some t0)) evs" and "fs \<noteq> []"
  shows "\<exists>t. out s = Some t \<and>
           rafQueue (foldl appendOut s fs) = 1 \<and>
           writes (foldl appendOut s fs) = writes s \<and>
           out (foldl appendOut s fs) = Some t \<and>
           buffer (foldl appendOut s fs) = buffer s @ concat fs \<and>
           out (frame_tick (foldl appendOut s fs)) = Some (t @ buffer s @ concat fs) \<and>
           buffer (frame_tick (foldl appendOut s fs)) = [] \<and>
           \<not> rafPending (frame_tick (foldl appendOut s fs)) \<and>
           rafQueue (frame_tick (foldl appendOut s fs)) = 0 \<and>
           writes (frame_tick (foldl appendOut s fs)) =
             writes s @ [AppendText (buffer s @ concat fs), SetScroll] \<and>
           paints (frame_tick (foldl appendOut s fs)) = Suc (paints s) \<and>
           (\<not> rafPending s \<longrightarrow> buffer s = [])"
proof -
  have inv: "sink_inv s"
    unfolding assms(1) by (rule sink_inv_run)
  then obtain t where t: "out s = Some t"
    by (auto simp: sink_inv_def)
  define s1 where "s1 = foldl appendOut s fs"
  have s1: "s1 = s\<lparr>buffer := buffer s @ concat fs, rafPending := True,
                    rafQueue := (if rafPending s then rafQueue s else Suc (rafQueue s))\<rparr>"
    unfolding s1_def by (rule foldl_appendOut_burst [OF assms(2)])
  have q: "rafQueue s1 = 1"
    using inv by (simp add: s1 sink_inv_def)
  have o: "out s1 = Some t"
    by (simp add: s1 t)
  have tick: "frame_tick s1 =
                s1\<lparr>rafQueue := 0, out := Some (t @ buffer s1),
                   writes := writes s1 @ [AppendText (buffer s1), SetScroll],
                   buffer := [], rafPending := False\<rparr>"
    by (rule frame_tick_armed [OF o q])
  have p: "paints (frame_tick s1) = Suc (paints s)"
    by (simp only: tick) (simp add: s1 paints_def)
  have e: "\<not> rafPending s \<longrightarrow> buffer s = []"
    using inv by (simp add: sink_inv_def)
  show ?thesis
    unfolding s1_def [symmetric]
    using t q o p e by (intro exI [of _ t]) (simp add: tick, simp add: s1)
qed

theorem appendOut_burst_one_paint_witness:
  "[''Hello'', '' '', ''world''] \<noteq> [] \<and>
   \<not> rafPending (sink_run (sink_init (Some ''> '')) [Append ''a'', Frame]) \<and>
   out (frame_tick (foldl appendOut (sink_run (sink_init (Some ''> '')) [Append ''a'', Frame])
          [''Hello'', '' '', ''world''])) = Some ''> aHello world'' \<and>
   paints (frame_tick (foldl appendOut (sink_run (sink_init (Some ''> '')) [Append ''a'', Frame])
          [''Hello'', '' '', ''world''])) = 2"
proof -
  have s: "sink_run (sink_init (Some ''> '')) [Append ''a'', Frame] =
             \<lparr>buffer = [], rafPending = False, out = Some ''> a'', rafQueue = 0,
              writes = [AppendText ''a'', SetScroll]\<rparr>"
    by (simp add: sink_run_def sink_init_def appendOut_def frame_tick_def render_def)
  show ?thesis
    using appendOut_burst_one_paint [OF refl, of "[''Hello'', '' '', ''world'']" "''> ''"
        "[Append ''a'', Frame]"]
    by (simp add: s paints_def)
qed

text \<open>
  C4 as stated fails: \<^verbatim>\<open>clearOut\<close> assigns \<^verbatim>\<open>textContent\<close> only. A fragment appended
  before it and not yet rendered stays in the buffer and is painted by the pending pass.
\<close>

theorem clearOut_keeps_buffer_counterexample:
  "buffer (snd (clearOut (appendOut (sink_init (Some [])) ''Hello''))) = ''Hello'' \<and>
   out (snd (clearOut (appendOut (sink_init (Some [])) ''Hello''))) = Some [] \<and>
   out (frame_tick (snd (clearOut (appendOut (sink_init (Some [])) ''Hello'')))) = Some ''Hello''"
  by (simp add: clearOut_def appendOut_def sink_init_def frame_tick_def render_def)

text \<open>
  C4, amended. In any state the sink can reach while \<^verbatim>\<open>#out\<close> exists, \<^verbatim>\<open>clearOut\<close> returns
  normally and empties the rendered output at once; it leaves the buffer, the armed flag and
  the registered callback as they were, so the next tick paints exactly the text that was
  buffered when it was called. When no render pass is pending the buffer is empty already,
  and both are empty afterwards.
\<close>

theorem clearOut_output_only:
  "fst (clearOut (sink_run (sink_init (Some t0)) evs)) = None \<and>
   out (snd (clearOut (sink_run (sink_init (Some t0)) evs))) = Some [] \<and>
   buffer (snd (clearOut (sink_run (sink_init (Some t0)) evs))) =
     buffer (sink_run (sink_init (Some t0)) evs) \<and>
   rafPending (snd (clearOut (sink_run (sink_init (Some t0)) evs))) =
     rafPending (sink_run (sink_init (Some t0)) evs) \<and>
   rafQueue (snd (clearOut (sink_run (sink_init (Some t0)) evs))) =
     rafQueue (sink_run (sink_init (Some t0)) evs) \<and>
   out (frame_tick (snd (clearOut (sink_run (sink_init (Some t0)) evs)))) =
     Some (buffer (sink_run (sink_init (Some t0)) evs)) \<and>
   (\<not> rafPending (sink_run (sink_init (Some t0)) evs) \<longrightarrow>
      buffer (snd (clearOut (sink_run (sink_init (Some t0)) evs))) = [])"
proof -
  define s where "s = sink_run (sink_init (Some t0)) evs"
  have inv: "sink_inv s"
    unfolding s_def by (rule sink_inv_run)
  then obtain t where t: "out s = Some t"
    by (auto simp: sink_inv_def)
  have c: "clearOut s = (None, s\<lparr>out := Some [], writes := writes s @ [SetText []]\<rparr>)"
    by (simp add: clearOut_def t)
  have f: "out (frame_tick (snd (clearOut s))) = Some (buffer s)"
    using inv by (auto simp: c sink_inv_def frame_tick_def render_def)
  have e: "\<not> rafPending s \<longrightarrow> buffer s = []"
    using inv by (simp add: sink_inv_def)
  show ?thesis
    unfolding s_def [symmetric] using f e by (simp add: c)
qed

theorem clearOut_output_only_witness:
  "\<not> rafPending (sink_run (sink_init (Some ''old'')) [Append ''x'', Frame]) \<and>
   out (snd (clearOut (sink_run (sink_init (Some ''old'')) [Append ''x'', Frame]))) = Some [] \<and>
   buffer (snd (clearOut (sink_run (sink_init (Some ''old'')) [Append ''x'', Frame]))) = []"
proof -
  have s: "sink_run (sink_init (Some ''old'')) [Append ''x'', Frame] =
             \<lparr>buffer = [], rafPending = False, out = Some ''oldx'', rafQueue = 0,
              writes = [AppendText ''x'', SetScroll]\<rparr>"
    by (simp add: sink_run_def sink_init_def appendOut_def frame_tick_def render_def)
  show ?thesis
    using clearOut_output_only [of "''old''" "[Append ''x'', Frame]"]
    by (simp add: s)
qed

section \<open>Properties of the session manager\<close>

lemmas handler_defs =
  manager_open_def onopen_def heartbeat_def onmessage_def onerror_def onclose_def stop_def
  clear_heartbeat_def clear_timer_def set_timer_def set_state_def ws_send_def ws_close_def
  invoke_def invoke_opt_def finish_def retry_cap_def ws_address_def Let_def

lemmas sample_defs =
  sample_env_def sample_parse_def main_opts_def sys_init_def backoff_def js_succ_def

subsection \<open>Runs\<close>

lemma run_append:
  "run e opts s (evs @ evs') =
     (case run e opts s evs of None \<Rightarrow> None | Some s' \<Rightarrow> run e opts s' evs')"
  by (induction evs arbitrary: s) (simp_all split: option.splits)

lemma run_snoc:
  "run e opts s (evs @ [ev]) =
     (case run e opts s evs of None \<Rightarrow> None | Some s' \<Rightarrow> step e opts s' ev)"
  by (simp add: run_append split: option.splits)

lemma open_run:
  "run sample_env (main_opts ''{}'') sys_init [Call_open, Ws_opened 0] =
     Some \<lparr>ws = Some 0, retries = 0, closedByClient = False, heartbeatTimer = Some 1,
       sockets = [\<lparr>sock_url = ''wss://example.org/ws/adapt'', readyState = OPEN,
                  sent = [InitPayload ''{}'']\<rparr>],
       timers = [(1, Interval (Num 20000) 0)], nextTimer = 2, calls = [OnStart], delays = [],
       thrown = []\<rparr>"
  by (simp add: handler_defs sample_defs)

subsection \<open>Handlers that return normally\<close>

lemma onmessage_no_throw: "fst (onmessage e opts raw s) = None"
  by (simp add: onmessage_def split: option.splits sum.splits)

lemma stop_no_throw: "fst (stop s) = None"
  by (simp add: stop_def ws_close_def Let_def split: option.splits)

lemma heartbeat_no_throw: "fst (heartbeat s) = None"
  by (simp add: heartbeat_def ws_send_def split: option.splits)

lemma onclose_no_throw: "fst (onclose opts s) = None"
  by (simp add: onclose_def set_timer_def Let_def)

lemma onerror_no_throw: "fst (onerror opts s) = None"
  by (simp add: onerror_def)

text \<open>
  C6. A frame on which \<^verbatim>\<open>JSON.parse\<close> throws: the message handler returns normally and
  leaves the whole state as it was, so no callback is invoked (the log of calls is part of
  the state) and nothing is recorded as thrown; delivering such a frame on an open socket
  is a turn of the event loop that changes nothing.
\<close>

theorem malformed_frame_ignored:
  assumes "json_parse e raw = None"
  shows "onmessage e opts raw s = (None, s) \<and>
         (i < length (sockets s) \<and> readyState (sockets s ! i) = OPEN \<longrightarrow>
            step e opts s (Ws_message i raw) = Some s)"
proof -
  have h: "onmessage e opts raw s = (None, s)"
    using assms by (simp add: onmessage_def)
  then have "finish (onmessage e opts raw s) = s"
    by (simp add: finish_def)
  with h show ?thesis
    by simp
qed

theorem malformed_frame_ignored_witness:
  "json_parse sample_env ''not-json'' = None \<and>
   run sample_env (main_opts ''{}'') sys_init [Call_open, Ws_opened 0, Ws_message 0 ''not-json''] =
   run sample_env (main_opts ''{}'') sys_init [Call_open, Ws_opened 0]"
proof -
  define s where "s = \<lparr>ws = Some 0, retries = 0, closedByClient = False, heartbeatTimer = Some 1,
       sockets = [\<lparr>sock_url = ''wss://example.org/ws/adapt'', readyState = OPEN,
                  sent = [InitPayload ''{}'']\<rparr>],
       timers = [(1, Interval (Num 20000) 0)], nextTimer = 2, calls = [OnStart], delays = [],
       thrown = []\<rparr>"
  have r: "run sample_env (main_opts ''{}'') sys_init [Call_open, Ws_opened 0] = Some s"
    unfolding s_def by (rule open_run)
  have p: "json_parse sample_env ''not-json'' = None"
    by (simp add: sample_env_def sample_parse_def)
  have l: "0 < length (sockets s)" and o: "readyState (sockets s ! 0) = OPEN"
    by (simp_all add: s_def)
  have "step sample_env (main_opts ''{}'') s (Ws_message 0 ''not-json'') = Some s"
    using malformed_frame_ignored [OF p, of "main_opts ''{}''" s 0] l o
    by (simp add: finish_def)
  then have "run sample_env (main_opts ''{}'') sys_init ([Call_open, Ws_opened 0] @ [Ws_message 0 ''not-json'']) = Some s"
    unfolding run_snoc r by simp
  then show ?thesis
    using p r by simp
qed

text \<open>
  C7 as stated fails on one well-formed frame: an \<^verbatim>\<open>error\<close> frame whose carried message
  is the empty string. \<^verbatim>\<open>m.data || "error"\<close> takes the empty string for absent, and
  \<^verbatim>\<open>onError\<close> receives \<^verbatim>\<open>"error"\<close>, not the carried message.
\<close>

theorem dispatch_error_empty_counterexample:
  "dispatch (main_opts ''{}'') (JObj [(''type'', JStr ''error''), (''data'', JStr [])]) =
     Inr [OnError (JStr ''error'')] \<and>
   dispatch (main_opts ''{}'') (JObj [(''type'', JStr ''error''), (''data'', JStr [])]) \<noteq>
     Inr [OnError (JStr [])]"
  by (simp add: dispatch_def or_else_def main_opts_def)

text \<open>
  C7, amended. For every frame that parses to an object: kind \<^verbatim>\<open>token\<close> invokes
  \<^verbatim>\<open>onToken\<close> with the carried string, or with the empty string when \<^verbatim>\<open>data\<close> is missing;
  kind \<^verbatim>\<open>start\<close> invokes \<^verbatim>\<open>onStart\<close>, kind \<^verbatim>\<open>end\<close> invokes \<^verbatim>\<open>onEnd\<close> (when supplied);
  kind \<^verbatim>\<open>error\<close> invokes \<^verbatim>\<open>onError\<close> (when supplied) with the carried message when it is
  a non-empty string, and with \<^verbatim>\<open>"error"\<close> when the message is missing or empty; any other
  kind invokes nothing; and the transport error handler invokes \<^verbatim>\<open>onError\<close> (when
  supplied) with \<^verbatim>\<open>"ws_error"\<close>. In each case exactly the call named is added to the log
  and nothing else changes.
\<close>

theorem dispatch_well_formed:
  assumes "json_parse e raw = Some (JObj kvs)"
  shows
    "(map_of kvs ''type'' = Some (JStr ''token'') \<longrightarrow>
        (map_of kvs ''data'' = Some (JStr d) \<longrightarrow>
           onmessage e opts raw s = (None, s\<lparr>calls := calls s @ [OnToken (JStr d)]\<rparr>)) \<and>
        (map_of kvs ''data'' = None \<longrightarrow>
           onmessage e opts raw s = (None, s\<lparr>calls := calls s @ [OnToken (JStr [])]\<rparr>))) \<and>
     (map_of kvs ''type'' = Some (JStr ''start'') \<longrightarrow>
        onmessage e opts raw s = (None, s\<lparr>calls := calls s @ (if onStart opts then [OnStart] else [])\<rparr>)) \<and>
     (map_of kvs ''type'' = Some (JStr ''end'') \<longrightarrow>
        onmessage e opts raw s = (None, s\<lparr>calls := calls s @ (if onEnd opts then [OnEnd] else [])\<rparr>)) \<and>
     (map_of kvs ''type'' = Some (JStr ''error'') \<longrightarrow>
        (map_of kvs ''data'' = Some (JStr d) \<and> d \<noteq> [] \<longrightarrow>
           onmessage e opts raw s =
             (None, s\<lparr>calls := calls s @ (if onError opts then [OnError (JStr d)] else [])\<rparr>)) \<and>
        (map_of kvs ''data'' = None \<or> map_of kvs ''data'' = Some (JStr []) \<longrightarrow>
           onmessage e opts raw s =
             (None, s\<lparr>calls := calls s @ (if onError opts then [OnError (JStr ''error'')] else [])\<rparr>))) \<and>
     (map_of kvs ''type'' \<notin> {Some (JStr ''token''), Some (JStr ''start''), Some (JStr ''end''),
                               Some (JStr ''error'')} \<longrightarrow>
        onmessage e opts raw s = (None, s)) \<and>
     onerror opts s =
       (None, s\<lparr>calls := calls s @ (if onError opts then [OnError (JStr ''ws_error'')] else [])\<rparr>)"
  using assms
  by (auto simp: onmessage_def dispatch_def or_else_def onerror_def invoke_opt_def invoke_def)

theorem dispatch_well_formed_witness:
  \<open>json_parse sample_env ''{"type":"error","data":"quota exceeded"}'' =
     Some (JObj [(''type'', JStr ''error''), (''data'', JStr ''quota exceeded'')]) \<and>
   map_of [(''type'', JStr ''error''), (''data'', JStr ''quota exceeded'')] ''type'' =
     Some (JStr ''error'') \<and>
   map_of [(''type'', JStr ''error''), (''data'', JStr ''quota exceeded'')] ''data'' =
     Some (JStr ''quota exceeded'') \<and>
   ''quota exceeded'' \<noteq> [] \<and>
   onmessage sample_env (main_opts ''{}'') ''{"type":"error","data":"quota exceeded"}'' sys_init =
     (None, sys_init\<lparr>calls := [OnError (JStr ''quota exceeded'')]\<rparr>)\<close>
proof -
  have p: \<open>json_parse sample_env ''{"type":"error","data":"quota exceeded"}'' =
             Some (JObj [(''type'', JStr ''error''), (''data'', JStr ''quota exceeded'')])\<close>
    by (simp add: sample_env_def sample_parse_def)
  show ?thesis
    using dispatch_well_formed [OF p, of "''quota exceeded''" "main_opts ''{}''" sys_init] p
    by (simp add: main_opts_def sys_init_def)
qed

subsection \<open>Reconnection\<close>

lemma onopen_resets:
  "retries (snd (onopen opts i s)) = 0 \<and> \<not> closedByClient (snd (onopen opts i s))"
  by (auto simp: onopen_def ws_send_def invoke_opt_def invoke_def set_timer_def Let_def
      split: option.splits ready_state.splits)

lemma budget_run:
  "run sample_env (main_opts ''{}'') sys_init
     [Call_open, Ws_opened 0, Ws_closed 0, Timer_fire 2, Ws_closed 1, Timer_fire 3, Ws_closed 2] =
   Some \<lparr>ws = Some 2, retries = 2, closedByClient = False, heartbeatTimer = Some 1,
     sockets =
       [\<lparr>sock_url = ''wss://example.org/ws/adapt'', readyState = CLOSED,
          sent = [InitPayload ''{}'']\<rparr>,
        \<lparr>sock_url = ''wss://example.org/ws/adapt'', readyState = CLOSED, sent = []\<rparr>,
        \<lparr>sock_url = ''wss://example.org/ws/adapt'', readyState = CLOSED, sent = []\<rparr>],
     timers = [], nextTimer = 4, calls = [OnStart], delays = [Num 500, Num 1000], thrown = []\<rparr>"
  by (simp add: handler_defs sample_defs)

lemma reopen_run:
  "run sample_env (main_opts ''{}'') sys_init
     [Call_open, Ws_closed 0, Timer_fire 1, Ws_closed 1, Timer_fire 2, Ws_opened 2, Ws_closed 2] =
   Some \<lparr>ws = Some 2, retries = 1, closedByClient = False, heartbeatTimer = Some 3,
     sockets =
       [\<lparr>sock_url = ''wss://example.org/ws/adapt'', readyState = CLOSED, sent = []\<rparr>,
        \<lparr>sock_url = ''wss://example.org/ws/adapt'', readyState = CLOSED, sent = []\<rparr>,
        \<lparr>sock_url = ''wss://example.org/ws/adapt'', readyState = CLOSED,
          sent = [InitPayload ''{}'']\<rparr>],
     timers = [(4, Timeout (Num 500))], nextTimer = 5, calls = [OnStart],
     delays = [Num 500, Num 1000, Num 500], thrown = []\<rparr>"
  by (simp add: handler_defs sample_defs)

text \<open>Sockets that never connect: the state after \<open>n\<close> failed attempts.\<close>

lemma failures_run:
  assumes "url_ok e (ws_address e opts)"
    and "\<forall>k<n. below k (retry_cap opts)" and "n \<le> 9007199254740992"
  shows "run e opts sys_init (failures n) =
     Some \<lparr>ws = Some n, retries = n, closedByClient = False, heartbeatTimer = None,
       sockets = replicate n \<lparr>sock_url = ws_address e opts, readyState = CLOSED, sent = []\<rparr> @
                 [\<lparr>sock_url = ws_address e opts, readyState = CONNECTING, sent = []\<rparr>],
       timers = [], nextTimer = Suc n, calls = [], delays = map backoff [0..<n],
       thrown = []\<rparr>"
  using assms(2,3)
proof (induction n)
  case 0
  show ?case
    using assms(1) by (simp add: manager_open_def finish_def sys_init_def)
next
  case (Suc n)
  have b: "below n (retry_cap opts)" and l: "n < 9007199254740992"
    using Suc.prems by simp_all
  have r: "run e opts sys_init (failures n) =
     Some \<lparr>ws = Some n, retries = n, closedByClient = False, heartbeatTimer = None,
       sockets = replicate n \<lparr>sock_url = ws_address e opts, readyState = CLOSED, sent = []\<rparr> @
                 [\<lparr>sock_url = ws_address e opts, readyState = CONNECTING, sent = []\<rparr>],
       timers = [], nextTimer = Suc n, calls = [], delays = map backoff [0..<n],
       thrown = []\<rparr>"
    using Suc.IH Suc.prems by simp
  show ?case
    using assms(1) b l
    by (simp add: run_append r nth_append list_update_append set_state_def onclose_def
        clear_heartbeat_def set_timer_def js_succ_def finish_def clear_timer_def
        manager_open_def Let_def replicate_append_same)
qed

lemma failures_closed:
  assumes "url_ok e (ws_address e opts)"
    and "\<forall>k<Suc n. below k (retry_cap opts)" and "n < 9007199254740992"
  shows "run e opts sys_init (failures n @ [Ws_closed n]) =
     Some \<lparr>ws = Some n, retries = Suc n, closedByClient = False, heartbeatTimer = None,
       sockets = replicate (Suc n) \<lparr>sock_url = ws_address e opts, readyState = CLOSED, sent = []\<rparr>,
       timers = [(Suc n, Timeout (backoff n))], nextTimer = Suc (Suc n), calls = [],
       delays = map backoff [0..<Suc n], thrown = []\<rparr>"
proof -
  have "\<forall>k<n. below k (retry_cap opts)" and "n \<le> 9007199254740992"
    using assms(2,3) by simp_all
  from failures_run [OF assms(1) this] assms(2,3) show ?thesis
    by (simp add: run_append nth_append list_update_append set_state_def onclose_def
        clear_heartbeat_def set_timer_def js_succ_def finish_def Let_def replicate_append_same)
qed


lemma last_backoff: "last (map backoff [0..<Suc n]) = backoff n"
  by simp

text \<open>
  C2 as stated fails once the attempt counter reaches 1016, which a budget above 1016
  allows: \<^verbatim>\<open>500 * Math.pow(2, 1016)\<close> exceeds the largest double, and the delay passed
  to \<^verbatim>\<open>setTimeout\<close> is \<^verbatim>\<open>Infinity\<close>, not \<open>500 * 2^1016\<close>. Below, under a budget of
  2000, 1016 sockets in a row fail to connect; the counter is then 1016, and the closure
  of the next socket schedules the delay \<^verbatim>\<open>Infinity\<close>.
\<close>

theorem backoff_overflow_counterexample:
  "map_option retries
     (run sample_env ((main_opts ''{}'')\<lparr>maxRetries := Some (Num 2000)\<rparr>) sys_init
        (failures 1016)) = Some 1016 \<and>
   map_option (last \<circ> delays)
     (run sample_env ((main_opts ''{}'')\<lparr>maxRetries := Some (Num 2000)\<rparr>) sys_init
        (failures 1016 @ [Ws_closed 1016])) = Some PosInf \<and>
   map_option (last \<circ> delays)
     (run sample_env ((main_opts ''{}'')\<lparr>maxRetries := Some (Num 2000)\<rparr>) sys_init
        (failures 1016 @ [Ws_closed 1016])) \<noteq> Some (Num (500 * 2 ^ 1016))"
proof -
  define opts where "opts = (main_opts ''{}'')\<lparr>maxRetries := Some (Num 2000)\<rparr>"
  have u: "url_ok sample_env (ws_address sample_env opts)"
    by (simp add: sample_env_def)
  have c: "retry_cap opts = Num 2000"
    by (simp add: opts_def retry_cap_def main_opts_def)
  have b: "\<forall>k<Suc 1016. below k (retry_cap opts)"
    by (simp add: c)
  then have b': "\<forall>k<1016. below k (retry_cap opts)"
    by simp
  have r: "map_option retries (run sample_env opts sys_init (failures 1016)) = Some 1016"
    using failures_run [OF u b'] by simp
  have d: "map_option (last \<circ> delays)
             (run sample_env opts sys_init (failures 1016 @ [Ws_closed 1016])) = Some (backoff 1016)"
    using failures_closed [OF u b] last_backoff [of 1016] by simp
  have i: "backoff 1016 = PosInf"
    by (simp add: backoff_def)
  have d2: "map_option (last \<circ> delays)
              (run sample_env opts sys_init (failures 1016 @ [Ws_closed 1016])) = Some PosInf"
    using d unfolding i .
  have d3: "map_option (last \<circ> delays)
              (run sample_env opts sys_init (failures 1016 @ [Ws_closed 1016])) \<noteq>
            Some (Num (500 * 2 ^ 1016))"
    unfolding d2 by simp
  from r d2 d3 show ?thesis
    unfolding opts_def by (intro conjI)
qed

text \<open>
  C2, amended. When the close handler runs with \<^verbatim>\<open>closedByClient\<close> false, a retry is
  scheduled if and only if the attempt counter is below the configured \<^verbatim>\<open>maxRetries\<close>
  (below 3 when none is configured), compared as doubles, so never against \<^verbatim>\<open>NaN\<close>.
  When one is scheduled, the counter is incremented (it stays put only at \<open>2^53\<close>), and
  the delay is exactly \<open>500 * 2 ^ retries\<close> as long as the counter is at most 1015;
  from 1016 on the delay is \<^verbatim>\<open>Infinity\<close>. Otherwise neither the counter nor the timers
  change beyond the cleared heartbeat. The open handler resets the counter, so the close
  that follows an open schedules 500 again. With the budget 2 of \<^verbatim>\<open>main.ts\<close>, three
  closures in a row schedule 500, then 1000, then nothing; and when the second reconnect
  succeeds, the next closure schedules 500.
\<close>

theorem reconnect_backoff:
  assumes "\<not> closedByClient s"
  shows "(below (retries s) (case maxRetries opts of None \<Rightarrow> Num 3 | Some m \<Rightarrow> m) \<longrightarrow>
            retries (snd (onclose opts s)) =
              (if retries s < 9007199254740992 then Suc (retries s) else retries s) \<and>
            (retries s \<le> 1015 \<longrightarrow>
               timers (snd (onclose opts s)) =
                 timers (clear_heartbeat s) @ [(nextTimer s, Timeout (Num (500 * 2 ^ retries s)))] \<and>
               delays (snd (onclose opts s)) = delays s @ [Num (500 * 2 ^ retries s)]) \<and>
            (1016 \<le> retries s \<longrightarrow>
               timers (snd (onclose opts s)) =
                 timers (clear_heartbeat s) @ [(nextTimer s, Timeout PosInf)] \<and>
               delays (snd (onclose opts s)) = delays s @ [PosInf])) \<and>
         (\<not> below (retries s) (case maxRetries opts of None \<Rightarrow> Num 3 | Some m \<Rightarrow> m) \<longrightarrow>
            retries (snd (onclose opts s)) = retries s \<and>
            timers (snd (onclose opts s)) = timers (clear_heartbeat s) \<and>
            delays (snd (onclose opts s)) = delays s) \<and>
         retries (snd (onopen opts i s)) = 0 \<and>
         (below 0 (case maxRetries opts of None \<Rightarrow> Num 3 | Some m \<Rightarrow> m) \<longrightarrow>
            delays (snd (onclose opts (snd (onopen opts i s)))) =
              delays (snd (onopen opts i s)) @ [Num 500]) \<and>
         (\<exists>s2. run sample_env (main_opts ''{}'') sys_init
                 [Call_open, Ws_opened 0, Ws_closed 0, Timer_fire 2, Ws_closed 1, Timer_fire 3,
                  Ws_closed 2] = Some s2 \<and>
               delays s2 = [Num 500, Num 1000] \<and> timers s2 = []) \<and>
         (\<exists>s3. run sample_env (main_opts ''{}'') sys_init
                 [Call_open, Ws_closed 0, Timer_fire 1, Ws_closed 1, Timer_fire 2, Ws_opened 2,
                  Ws_closed 2] = Some s3 \<and>
               delays s3 = [Num 500, Num 1000, Num 500])"
proof -
  define cap where "cap = (case maxRetries opts of None \<Rightarrow> Num 3 | Some m \<Rightarrow> m)"
  have cap: "retry_cap opts = cap"
    by (simp add: cap_def retry_cap_def)
  have c: "\<not> closedByClient (clear_heartbeat s)" and r: "retries (clear_heartbeat s) = retries s"
    and n: "nextTimer (clear_heartbeat s) = nextTimer s" and d: "delays (clear_heartbeat s) = delays s"
    using assms by (simp_all add: clear_heartbeat_def clear_timer_def split: option.splits)
  have a: "below (retries s) cap \<longrightarrow>
            retries (snd (onclose opts s)) =
              (if retries s < 9007199254740992 then Suc (retries s) else retries s) \<and>
            (retries s \<le> 1015 \<longrightarrow>
               timers (snd (onclose opts s)) =
                 timers (clear_heartbeat s) @ [(nextTimer s, Timeout (Num (500 * 2 ^ retries s)))] \<and>
               delays (snd (onclose opts s)) = delays s @ [Num (500 * 2 ^ retries s)]) \<and>
            (1016 \<le> retries s \<longrightarrow>
               timers (snd (onclose opts s)) =
                 timers (clear_heartbeat s) @ [(nextTimer s, Timeout PosInf)] \<and>
               delays (snd (onclose opts s)) = delays s @ [PosInf])"
    using c r n d
    by (simp add: onclose_def set_timer_def Let_def cap js_succ_def backoff_def)
  have b: "\<not> below (retries s) cap \<longrightarrow>
            retries (snd (onclose opts s)) = retries s \<and>
            timers (snd (onclose opts s)) = timers (clear_heartbeat s) \<and>
            delays (snd (onclose opts s)) = delays s"
    using c r n d by (simp add: onclose_def set_timer_def Let_def cap)
  define s1 where "s1 = snd (onopen opts i s)"
  have o: "retries s1 = 0" "\<not> closedByClient s1"
    unfolding s1_def using onopen_resets [of opts i s] by simp_all
  have c1: "\<not> closedByClient (clear_heartbeat s1)" and r1: "retries (clear_heartbeat s1) = 0"
    and d1: "delays (clear_heartbeat s1) = delays s1"
    using o by (simp_all add: clear_heartbeat_def clear_timer_def split: option.splits)
  have e: "below 0 cap \<longrightarrow> delays (snd (onclose opts s1)) = delays s1 @ [Num 500]"
    using c1 r1 d1 by (simp add: onclose_def set_timer_def Let_def cap backoff_def)
  show ?thesis
    unfolding cap_def [symmetric] s1_def [symmetric]
    using a b o(1) e budget_run reopen_run by simp
qed

theorem reconnect_backoff_witness:
  "\<not> closedByClient sys_init \<and>
   below (retries sys_init) (case maxRetries (main_opts ''{}'') of None \<Rightarrow> Num 3 | Some m \<Rightarrow> m) \<and>
   retries sys_init \<le> 1015 \<and>
   delays (snd (onclose (main_opts ''{}'') sys_init)) = [Num 500] \<and>
   retries (snd (onclose (main_opts ''{}'') sys_init)) = 1"
proof -
  have h: "\<not> closedByClient sys_init"
    by (simp add: sys_init_def)
  show ?thesis
    using reconnect_backoff [OF h, of "main_opts ''{}''"]
    by (simp add: sys_init_def main_opts_def)
qed


subsection \<open>The retry budget\<close>

text \<open>
  C10 as stated fails for a budget that is not a natural number; \<^verbatim>\<open>maxRetries\<close> is a
  number that the code does not check. With the budget 2.5, three failed attempts bring
  the counter to 3; with the budget -1 the counter exceeds the budget from the start.
\<close>

theorem fractional_budget_counterexample:
  "map_option retries
     (run sample_env ((main_opts ''{}'')\<lparr>maxRetries := Some (Num (5 / 2))\<rparr>) sys_init
        (failures 3)) = Some 3 \<and>
   above 3 (Num (5 / 2)) \<and>
   above (retries sys_init) (Num (- 1))"
proof -
  define opts where "opts = (main_opts ''{}'')\<lparr>maxRetries := Some (Num (5 / 2))\<rparr>"
  have u: "url_ok sample_env (ws_address sample_env opts)"
    by (simp add: sample_env_def)
  have c: "retry_cap opts = Num (5 / 2)"
    by (simp add: opts_def retry_cap_def main_opts_def)
  have "real k < 5 / 2" if "k < 3" for k :: nat
    using that by simp
  then have b: "\<forall>k<3. below k (retry_cap opts)"
    by (simp add: c)
  have r: "map_option retries (run sample_env opts sys_init (failures 3)) = Some 3"
    using failures_run [OF u b] by simp
  have a: "above 3 (Num (5 / 2))" and n: "above (retries sys_init) (Num (- 1))"
    by (simp_all add: sys_init_def)
  from r a n show ?thesis
    unfolding opts_def by (intro conjI)
qed

lemma step_retries_le:
  assumes "retry_cap opts = Num (real m)"
    and "retries s \<le> m" and "step e opts s ev = Some s'"
  shows "retries s' \<le> m"
proof (cases ev)
  case Call_open
  with assms show ?thesis by (auto simp: manager_open_def finish_def)
next
  case Call_stop
  with assms show ?thesis
    by (auto simp: stop_def ws_close_def clear_heartbeat_def clear_timer_def set_state_def
        finish_def Let_def split: option.splits)
next
  case (Ws_opened i)
  with assms show ?thesis
    using onopen_resets [of opts i "set_state i OPEN s"]
    by (auto simp: finish_def split: if_splits option.splits)
next
  case (Ws_message i raw)
  with assms show ?thesis
    by (auto simp: onmessage_def finish_def split: if_splits option.splits sum.splits)
next
  case (Ws_errored i)
  with assms show ?thesis
    by (auto simp: onerror_def invoke_opt_def invoke_def finish_def split: if_splits)
next
  case (Ws_closing i)
  with assms show ?thesis
    by (auto simp: set_state_def split: if_splits)
next
  case (Ws_closed i)
  with assms show ?thesis
    by (auto simp: onclose_def clear_heartbeat_def clear_timer_def set_state_def set_timer_def
        js_succ_def finish_def Let_def split: if_splits option.splits)
next
  case (Timer_fire t)
  with assms show ?thesis
    by (auto simp: heartbeat_def ws_send_def manager_open_def clear_timer_def finish_def
        split: if_splits option.splits timer.splits)
qed

lemma step_retries_delays:
  assumes "retry_cap opts = Num (real m)" and "m \<le> 9007199254740992"
    and "step e opts s ev = Some s'" and "\<forall>i. ev \<noteq> Ws_opened i"
  shows "retries s + length (delays s') = retries s' + length (delays s)"
proof (cases ev)
  case Call_open
  with assms show ?thesis by (auto simp: manager_open_def finish_def)
next
  case Call_stop
  with assms show ?thesis
    by (auto simp: stop_def ws_close_def clear_heartbeat_def clear_timer_def set_state_def
        finish_def Let_def split: option.splits)
next
  case (Ws_opened i)
  with assms show ?thesis by simp
next
  case (Ws_message i raw)
  with assms show ?thesis
    by (auto simp: onmessage_def finish_def split: if_splits option.splits sum.splits)
next
  case (Ws_errored i)
  with assms show ?thesis
    by (auto simp: onerror_def invoke_opt_def invoke_def finish_def split: if_splits)
next
  case (Ws_closing i)
  with assms show ?thesis
    by (auto simp: set_state_def split: if_splits)
next
  case (Ws_closed i)
  with assms show ?thesis
    by (auto simp: onclose_def clear_heartbeat_def clear_timer_def set_state_def set_timer_def
        js_succ_def finish_def Let_def split: if_splits option.splits)
next
  case (Timer_fire t)
  with assms show ?thesis
    by (auto simp: heartbeat_def ws_send_def manager_open_def clear_timer_def finish_def
        split: if_splits option.splits timer.splits)
qed

lemma run_retries_le:
  "retry_cap opts = Num (real m) \<Longrightarrow> retries s \<le> m \<Longrightarrow> run e opts s evs = Some s' \<Longrightarrow>
   retries s' \<le> m"
proof (induction evs arbitrary: s)
  case Nil
  then show ?case by simp
next
  case (Cons ev evs)
  from Cons.prems(3) obtain s1 where s1: "step e opts s ev = Some s1"
    and r: "run e opts s1 evs = Some s'"
    by (auto split: option.splits)
  from step_retries_le [OF Cons.prems(1,2) s1] have "retries s1 \<le> m" .
  from Cons.IH [OF Cons.prems(1) this r] show ?case .
qed

lemma run_retries_delays:
  "retry_cap opts = Num (real m) \<Longrightarrow> m \<le> 9007199254740992 \<Longrightarrow>
   run e opts s evs = Some s' \<Longrightarrow> \<forall>i. Ws_opened i \<notin> set evs \<Longrightarrow>
   retries s + length (delays s') = retries s' + length (delays s)"
proof (induction evs arbitrary: s)
  case Nil
  then show ?case by simp
next
  case (Cons ev evs)
  from Cons.prems(3) obtain s1 where s1: "step e opts s ev = Some s1"
    and r: "run e opts s1 evs = Some s'"
    by (auto split: option.splits)
  have n: "\<forall>i. ev \<noteq> Ws_opened i" and n': "\<forall>i. Ws_opened i \<notin> set evs"
    using Cons.prems(4) by auto
  from step_retries_delays [OF Cons.prems(1,2) s1 n] Cons.IH [OF Cons.prems(1,2) r n']
  show ?case by simp
qed

text \<open>
  C10, amended. When the configured \<^verbatim>\<open>maxRetries\<close> is a natural number \<open>m\<close> (or none is
  configured and \<open>m\<close> is 3): whatever the caller and the network do, in every state
  reached from the initial one the attempt counter is at most \<open>m\<close>; and when \<open>m\<close> is
  at most \<open>2^53\<close>, over any further stretch of events in which no socket opens, the
  number of reconnects scheduled is the growth of the counter, hence at most \<open>m\<close>.
\<close>

theorem retries_within_budget:
  assumes "maxRetries opts = Some (Num (real m)) \<or> (maxRetries opts = None \<and> m = 3)"
    and "run e opts sys_init evs0 = Some s"
    and "run e opts s evs = Some s'"
    and "\<forall>i. Ws_opened i \<notin> set evs"
  shows "retries s \<le> m \<and>
         retries s' \<le> m \<and>
         (m \<le> 9007199254740992 \<longrightarrow>
            length (delays s') + retries s = length (delays s) + retries s' \<and>
            length (delays s') \<le> length (delays s) + m)"
proof -
  have cap: "retry_cap opts = Num (real m)"
    using assms(1) by (auto simp: retry_cap_def)
  have i: "retries sys_init \<le> m"
    by (simp add: sys_init_def)
  have a: "retries s \<le> m"
    by (rule run_retries_le [OF cap i assms(2)])
  have b: "retries s' \<le> m"
    by (rule run_retries_le [OF cap a assms(3)])
  have c: "retries s + length (delays s') = retries s' + length (delays s)"
    if "m \<le> 9007199254740992"
    by (rule run_retries_delays [OF cap that assms(3) assms(4)])
  show ?thesis
    using a b c by auto
qed

theorem retries_within_budget_witness:
  "maxRetries (main_opts ''{}'') = Some (Num (real 2)) \<and>
   (\<exists>s s'. run sample_env (main_opts ''{}'') sys_init [Call_open, Ws_opened 0] = Some s \<and>
      run sample_env (main_opts ''{}'') s
        [Ws_closed 0, Timer_fire 2, Ws_closed 1, Timer_fire 3, Ws_closed 2] = Some s' \<and>
      retries s' = 2 \<and> length (delays s') \<le> length (delays s) + 2) \<and>
   (\<forall>i. Ws_opened i \<notin> set [Ws_closed 0, Timer_fire 2, Ws_closed 1, Timer_fire 3, Ws_closed 2]) \<and>
   (2::nat) \<le> 9007199254740992"
proof -
  define s where "s = \<lparr>ws = Some 0, retries = 0, closedByClient = False, heartbeatTimer = Some 1,
       sockets = [\<lparr>sock_url = ''wss://example.org/ws/adapt'', readyState = OPEN,
                  sent = [InitPayload ''{}'']\<rparr>],
       timers = [(1, Interval (Num 20000) 0)], nextTimer = 2, calls = [OnStart], delays = [],
       thrown = []\<rparr>"
  have r: "run sample_env (main_opts ''{}'') sys_init [Call_open, Ws_opened 0] = Some s"
    unfolding s_def by (rule open_run)
  from budget_run obtain s' where
    r': "run sample_env (main_opts ''{}'') sys_init
           ([Call_open, Ws_opened 0] @
            [Ws_closed 0, Timer_fire 2, Ws_closed 1, Timer_fire 3, Ws_closed 2]) = Some s'"
    and t: "retries s' = 2"
    by simp
  have r2: "run sample_env (main_opts ''{}'') s
              [Ws_closed 0, Timer_fire 2, Ws_closed 1, Timer_fire 3, Ws_closed 2] = Some s'"
    using r' unfolding run_append r by simp
  have n: "\<forall>i. Ws_opened i \<notin> set [Ws_closed 0, Timer_fire 2, Ws_closed 1, Timer_fire 3, Ws_closed 2]"
    by simp
  have m: "maxRetries (main_opts ''{}'') = Some (Num (real 2))"
    by (simp add: main_opts_def)
  have l: "(2::nat) \<le> 9007199254740992"
    by simp
  from retries_within_budget [OF disjI1 [OF m] r r2 n] l
  have "length (delays s') \<le> length (delays s) + 2"
    by simp
  with r r2 t n m l show ?thesis
    by blast
qed


subsection \<open>A session with one socket at a time\<close>

lemma single_inv_init: "single_inv opts sys_init"
  by (simp add: single_inv_def sys_init_def all_closed_def)

lemma init_then_pings_snoc:
  "init_then_pings p fs \<Longrightarrow> init_then_pings p (fs @ [Ping])"
  by (cases fs) (simp_all add: init_then_pings_def)

lemma newest_only:
  assumes "all_closed (butlast cs)" and "i < length cs" and "readyState (cs ! i) \<noteq> CLOSED"
  shows "\<exists>bs c. cs = bs @ [c] \<and> i = length bs \<and> all_closed bs"
proof -
  from assms(2) have ne: "cs \<noteq> []" by auto
  then have cs: "cs = butlast cs @ [last cs]" by simp
  have "\<not> i < length (butlast cs)"
  proof
    assume l: "i < length (butlast cs)"
    then have "readyState (butlast cs ! i) = CLOSED"
      using assms(1) by (simp add: all_closed_def list_all_length)
    then show False
      using assms(3) l by (simp add: nth_butlast)
  qed
  then have "i = length (butlast cs)"
    using assms(2) by simp
  with cs assms(1) show ?thesis by blast
qed

lemma single_inv_message:
  assumes "single_inv opts s"
  shows "single_inv opts (finish (onmessage e opts raw s))"
proof -
  obtain cs where "finish (onmessage e opts raw s) = s\<lparr>calls := cs\<rparr>"
    by (cases "json_parse e raw"; cases "dispatch opts (the (json_parse e raw))")
       (auto simp: onmessage_def finish_def intro: that [of "calls s"])
  with assms show ?thesis
    by (simp add: single_inv_def hb_live_def retry_pending_def)
qed

lemma single_inv_error:
  assumes "single_inv opts s"
  shows "single_inv opts (finish (onerror opts s))"
  using assms
  by (simp add: single_inv_def hb_live_def retry_pending_def onerror_def finish_def
      invoke_opt_def invoke_def)

lemma single_inv_thrown:
  "single_inv opts s \<Longrightarrow> single_inv opts (s\<lparr>thrown := x\<rparr>)"
  by (simp add: single_inv_def hb_live_def retry_pending_def)

lemma single_inv_open:
  assumes "single_inv opts s" and "timers s = []" and "all_closed (sockets s)"
  shows "single_inv opts (finish (manager_open e opts s))"
proof (cases "url_ok e (ws_address e opts)")
  case False
  then have "finish (manager_open e opts s) = s\<lparr>thrown := thrown s @ [SyntaxError]\<rparr>"
    by (simp add: manager_open_def finish_def)
  with assms(1) show ?thesis
    by (simp add: single_inv_thrown)
next
  case True
  then have "finish (manager_open e opts s) =
      s\<lparr>sockets := sockets s @
           [\<lparr>sock_url = ws_address e opts, readyState = CONNECTING, sent = []\<rparr>],
        ws := Some (length (sockets s))\<rparr>"
    by (simp add: manager_open_def finish_def)
  with assms show ?thesis
    by (simp add: single_inv_def frames_ok_def)
qed

lemma quiescent_timers:
  assumes "single_inv opts s" and "quiescent s"
  shows "timers s = [] \<and> all_closed (sockets s)"
proof -
  have c: "all_closed (sockets s)"
    using assms(2) by (simp add: quiescent_def all_closed_def)
  have "\<not> hb_live s"
  proof
    assume "hb_live s"
    then have "sockets s \<noteq> []" and "readyState (last (sockets s)) \<noteq> CLOSED"
      by (auto simp: hb_live_def)
    moreover have "readyState (last (sockets s)) = CLOSED"
      using c \<open>sockets s \<noteq> []\<close> by (simp add: all_closed_def list_all_iff)
    ultimately show False by simp
  qed
  moreover have "\<not> retry_pending s"
    using assms(2) by (auto simp: retry_pending_def quiescent_def)
  ultimately show ?thesis
    using assms(1) c by (simp add: single_inv_def)
qed

lemma single_inv_call_open:
  assumes "single_inv opts s" and "quiescent s"
  shows "single_inv opts (finish (manager_open e opts s))"
  using quiescent_timers [OF assms] single_inv_open [OF assms(1)] by simp

lemma single_inv_timeout:
  assumes "single_inv opts s" and "map_of (timers s) t = Some (Timeout ms)"
  shows "single_inv opts (finish (manager_open e opts (clear_timer t s)))"
proof -
  have "timers s \<noteq> []" using assms(2) by auto
  moreover have "\<not> hb_live s" using assms(2) by (auto simp: hb_live_def split: if_splits)
  ultimately have "retry_pending s"
    using assms(1) by (simp add: single_inv_def)
  then obtain t' ms' where t: "timers s = [(t', Timeout ms')]" and c: "all_closed (sockets s)"
    by (auto simp: retry_pending_def)
  with assms(2) have "t' = t" by (simp split: if_splits)
  then have ti: "timers (clear_timer t s) = []"
    by (simp add: clear_timer_def t)
  have "single_inv opts (clear_timer t s)"
    using assms(1) ti by (simp add: single_inv_def clear_timer_def)
  moreover have "all_closed (sockets (clear_timer t s))"
    using c by (simp add: clear_timer_def)
  ultimately show ?thesis
    using ti by (intro single_inv_open)
qed


text \<open>The socket in \<^verbatim>\<open>this.ws\<close> is the newest one.\<close>

lemma single_inv_ws:
  assumes "single_inv opts s" and "sockets s = bs @ [c]"
  shows "ws s = Some (length bs)" and "all_closed bs" and "frames_ok opts c"
    and "list_all (frames_ok opts) bs"
  using assms by (simp_all add: single_inv_def)

lemma single_inv_heartbeat:
  assumes "single_inv opts s"
  shows "single_inv opts (finish (heartbeat s))"
proof (cases "sockets s" rule: rev_cases)
  case Nil
  with assms have "ws s = None" by (simp add: single_inv_def)
  then have "finish (heartbeat s) = s" by (simp add: heartbeat_def finish_def)
  with assms show ?thesis by simp
next
  case (snoc bs c)
  note w = single_inv_ws [OF assms snoc]
  show ?thesis
  proof (cases "readyState c = OPEN")
    case False
    then have "finish (heartbeat s) = s"
      by (simp add: heartbeat_def finish_def w(1) snoc)
    with assms show ?thesis by simp
  next
    case True
    then have h: "finish (heartbeat s) = s\<lparr>sockets := bs @ [c\<lparr>sent := sent c @ [Ping]\<rparr>]\<rparr>"
      by (simp add: heartbeat_def ws_send_def finish_def w(1) snoc)
    have f: "frames_ok opts (c\<lparr>sent := sent c @ [Ping]\<rparr>)"
      using w(3) True by (simp add: frames_ok_def init_then_pings_snoc)
    show ?thesis
      unfolding h using assms f True
      by (simp add: single_inv_def hb_live_def retry_pending_def all_closed_def snoc)
  qed
qed

lemma clear_heartbeat_timers:
  assumes "single_inv opts s"
  shows "timers (clear_heartbeat s) = (if retry_pending s then timers s else [])"
proof -
  consider "timers s = []" | "hb_live s" | "retry_pending s"
    using assms by (auto simp: single_inv_def)
  then show ?thesis
  proof cases
    case 1
    then show ?thesis
      by (auto simp: clear_heartbeat_def clear_timer_def retry_pending_def split: option.splits)
  next
    case 2
    then show ?thesis
      by (auto simp: clear_heartbeat_def clear_timer_def retry_pending_def hb_live_def
          split: option.splits)
  next
    case 3
    then show ?thesis
      by (auto simp: clear_heartbeat_def clear_timer_def retry_pending_def split: option.splits)
  qed
qed

lemma clear_heartbeat_fields:
  "sockets (clear_heartbeat s) = sockets s"
  "ws (clear_heartbeat s) = ws s"
  "nextTimer (clear_heartbeat s) = nextTimer s"
  "heartbeatTimer (clear_heartbeat s) = heartbeatTimer s"
  "retries (clear_heartbeat s) = retries s"
  "closedByClient (clear_heartbeat s) = closedByClient s"
  by (simp_all add: clear_heartbeat_def clear_timer_def split: option.splits)

lemma clear_heartbeat_sockets:
  "timers (clear_heartbeat (s\<lparr>sockets := x\<rparr>)) = timers (clear_heartbeat s)"
  by (simp add: clear_heartbeat_def clear_timer_def split: option.splits)

lemma single_inv_stop:
  assumes "single_inv opts s"
  shows "single_inv opts (finish (stop s))"
proof -
  define s2 where "s2 = clear_heartbeat (s\<lparr>closedByClient := True\<rparr>)"
  have i1: "single_inv opts (s\<lparr>closedByClient := True\<rparr>)"
    using assms by (simp add: single_inv_def hb_live_def retry_pending_def)
  have rp: "retry_pending (s\<lparr>closedByClient := True\<rparr>) = retry_pending s"
    by (simp add: retry_pending_def)
  have t2: "timers s2 = (if retry_pending s then timers s else [])"
    unfolding s2_def using clear_heartbeat_timers [OF i1] rp by simp
  have f2: "sockets s2 = sockets s" "ws s2 = ws s" "nextTimer s2 = nextTimer s"
    "heartbeatTimer s2 = heartbeatTimer s"
    unfolding s2_def by (simp_all add: clear_heartbeat_fields)
  have i2: "single_inv opts s2"
    using assms t2 f2 by (auto simp: single_inv_def retry_pending_def)
  have st: "stop s = (case ws s2 of None \<Rightarrow> (None, s2) | Some i \<Rightarrow> ws_close 1000 ''client stop'' i s2)"
    unfolding stop_def s2_def Let_def by (rule refl)
  show ?thesis
  proof (cases "sockets s" rule: rev_cases)
    case Nil
    with assms have "ws s = None" by (simp add: single_inv_def)
    then have "finish (stop s) = s2" by (simp add: st f2 finish_def)
    with i2 show ?thesis by simp
  next
    case (snoc bs c)
    note w = single_inv_ws [OF assms snoc]
    show ?thesis
    proof (cases "readyState c = CONNECTING \<or> readyState c = OPEN")
      case False
      then have "finish (stop s) = s2"
        by (simp add: st f2 w(1) snoc ws_close_def finish_def)
      with i2 show ?thesis by simp
    next
      case True
      then have h: "finish (stop s) = s2\<lparr>sockets := bs @ [c\<lparr>readyState := CLOSING\<rparr>]\<rparr>"
        by (auto simp: st f2 w(1) snoc ws_close_def set_state_def finish_def)
      have nr: "\<not> retry_pending s"
        using True by (auto simp: retry_pending_def all_closed_def snoc)
      have f: "frames_ok opts (c\<lparr>readyState := CLOSING\<rparr>)"
        using w(3) True by (auto simp: frames_ok_def)
      show ?thesis
        unfolding h using i2 f nr t2 f2
        by (simp add: single_inv_def all_closed_def snoc)
    qed
  qed
qed


lemma single_inv_opened:
  assumes "single_inv opts s" and "i < length (sockets s)"
    and "readyState (sockets s ! i) = CONNECTING"
  shows "single_inv opts (finish (onopen opts i (set_state i OPEN s)))"
proof -
  from assms(1) have "all_closed (butlast (sockets s))"
    by (simp add: single_inv_def)
  from newest_only [OF this assms(2)] assms(3)
  obtain bs c where cs: "sockets s = bs @ [c]" and i: "i = length bs"
    by auto
  note w = single_inv_ws [OF assms(1) cs]
  have c: "readyState c = CONNECTING"
    using assms(3) by (simp add: cs i)
  then have e: "sent c = []"
    using w(3) by (simp add: frames_ok_def)
  have "\<not> hb_live s"
    using c by (auto simp: hb_live_def cs)
  moreover have "\<not> retry_pending s"
    using c by (auto simp: retry_pending_def all_closed_def cs)
  ultimately have t: "timers s = []"
    using assms(1) by (simp add: single_inv_def)
  define hb where "hb = (case heartbeatMs opts of None \<Rightarrow> Num 20000 | Some h \<Rightarrow> h)"
  have h: "finish (onopen opts i (set_state i OPEN s)) =
      s\<lparr>sockets := bs @ [c\<lparr>readyState := OPEN, sent := [InitPayload (init opts)]\<rparr>],
        retries := 0, closedByClient := False,
        calls := calls s @ (if onStart opts then [OnStart] else []),
        timers := [(nextTimer s, Interval hb (length bs))],
        nextTimer := Suc (nextTimer s),
        heartbeatTimer := Some (nextTimer s)\<rparr>"
    by (simp add: onopen_def set_state_def ws_send_def invoke_opt_def invoke_def set_timer_def
        finish_def Let_def cs i w(1) e t hb_def)
  have n: "0 < nextTimer s"
    using assms(1) by (simp add: single_inv_def)
  show ?thesis
    unfolding h using assms(1) w(2,4) n
    by (simp add: single_inv_def hb_live_def frames_ok_def init_then_pings_def cs)
qed

lemma single_inv_closing:
  assumes "single_inv opts s" and "i < length (sockets s)"
    and "readyState (sockets s ! i) = OPEN"
  shows "single_inv opts (set_state i CLOSING s)"
proof -
  from assms(1) have "all_closed (butlast (sockets s))"
    by (simp add: single_inv_def)
  from newest_only [OF this assms(2)] assms(3)
  obtain bs c where cs: "sockets s = bs @ [c]" and i: "i = length bs"
    by auto
  note w = single_inv_ws [OF assms(1) cs]
  have c: "readyState c = OPEN"
    using assms(3) by (simp add: cs i)
  have nr: "\<not> retry_pending s"
    using c by (auto simp: retry_pending_def all_closed_def cs)
  have h: "set_state i CLOSING s = s\<lparr>sockets := bs @ [c\<lparr>readyState := CLOSING\<rparr>]\<rparr>"
    by (simp add: set_state_def cs i)
  have f: "frames_ok opts (c\<lparr>readyState := CLOSING\<rparr>)"
    using w(3) c by (simp add: frames_ok_def)
  show ?thesis
    unfolding h using assms(1) f nr
    by (auto simp: single_inv_def hb_live_def retry_pending_def all_closed_def cs)
qed

lemma single_inv_closed:
  assumes "single_inv opts s" and "i < length (sockets s)"
    and "readyState (sockets s ! i) \<noteq> CLOSED"
  shows "single_inv opts (finish (onclose opts (set_state i CLOSED s)))"
proof -
  from assms(1) have "all_closed (butlast (sockets s))"
    by (simp add: single_inv_def)
  from newest_only [OF this assms(2,3)]
  obtain bs c where cs: "sockets s = bs @ [c]" and i: "i = length bs"
    by auto
  note w = single_inv_ws [OF assms(1) cs]
  have c: "readyState c \<noteq> CLOSED"
    using assms(3) by (simp add: cs i)
  have nr: "\<not> retry_pending s"
    using c by (auto simp: retry_pending_def all_closed_def cs)
  define s0 where "s0 = set_state i CLOSED s"
  have s0: "s0 = s\<lparr>sockets := bs @ [c\<lparr>readyState := CLOSED\<rparr>]\<rparr>"
    by (simp add: s0_def set_state_def cs i)
  define s1 where "s1 = clear_heartbeat s0"
  have "timers (clear_heartbeat s) = []"
    using clear_heartbeat_timers [OF assms(1)] nr by simp
  then have t1: "timers s1 = []"
    by (simp add: s1_def s0 clear_heartbeat_sockets)
  have f1: "sockets s1 = bs @ [c\<lparr>readyState := CLOSED\<rparr>]" "ws s1 = ws s"
    "nextTimer s1 = nextTimer s" "heartbeatTimer s1 = heartbeatTimer s"
    by (simp_all add: s1_def clear_heartbeat_fields s0)
  have f: "frames_ok opts (c\<lparr>readyState := CLOSED\<rparr>)"
    using w(3) by (cases "readyState c") (auto simp: frames_ok_def)
  have i1: "single_inv opts s1"
    using assms(1) t1 f1 f w by (simp add: single_inv_def cs)
  have a1: "all_closed (sockets s1)"
    using w(2) by (simp add: f1 all_closed_def)
  have oc: "onclose opts s0 =
      (if \<not> closedByClient s1 \<and> below (retries s1) (retry_cap opts)
       then (None, s1\<lparr>retries := js_succ (retries s1),
                     timers := [(nextTimer s1, Timeout (backoff (retries s1)))],
                     nextTimer := Suc (nextTimer s1),
                     delays := delays s1 @ [backoff (retries s1)]\<rparr>)
       else (None, s1))"
    by (simp add: onclose_def set_timer_def Let_def s1_def [symmetric] t1)
  show ?thesis
  proof (cases "\<not> closedByClient s1 \<and> below (retries s1) (retry_cap opts)")
    case False
    then have "finish (onclose opts s0) = s1"
      by (auto simp: oc finish_def)
    with i1 show ?thesis by (simp add: s0_def)
  next
    case True
    then have h: "finish (onclose opts s0) =
        s1\<lparr>retries := js_succ (retries s1),
           timers := [(nextTimer s1, Timeout (backoff (retries s1)))],
           nextTimer := Suc (nextTimer s1),
           delays := delays s1 @ [backoff (retries s1)]\<rparr>"
      by (simp add: oc finish_def)
    have "single_inv opts (finish (onclose opts s0))"
      unfolding h using i1 a1
      by (auto simp: single_inv_def retry_pending_def)
    then show ?thesis by (simp add: s0_def)
  qed
qed

lemma single_inv_step:
  assumes "single_inv opts s" and "step e opts s ev = Some s'"
    and "ev = Call_open \<longrightarrow> quiescent s"
  shows "single_inv opts s'"
proof (cases ev)
  case Call_open
  with assms show ?thesis by (auto simp: single_inv_call_open)
next
  case Call_stop
  with assms show ?thesis by (auto simp: single_inv_stop)
next
  case (Ws_opened i)
  with assms show ?thesis by (auto simp: single_inv_opened split: if_splits)
next
  case (Ws_message i raw)
  with assms show ?thesis by (auto simp: single_inv_message split: if_splits)
next
  case (Ws_errored i)
  with assms show ?thesis by (auto simp: single_inv_error split: if_splits)
next
  case (Ws_closing i)
  with assms show ?thesis by (auto simp: single_inv_closing split: if_splits)
next
  case (Ws_closed i)
  with assms show ?thesis by (auto simp: single_inv_closed split: if_splits)
next
  case (Timer_fire t)
  with assms show ?thesis
    by (auto simp: single_inv_heartbeat single_inv_timeout split: option.splits timer.splits)
qed

lemma single_inv_run:
  "single_inv opts s \<Longrightarrow> run_single e opts s evs = Some s' \<Longrightarrow> single_inv opts s'"
proof (induction evs arbitrary: s)
  case Nil
  then show ?case by simp
next
  case (Cons ev evs)
  from Cons.prems(2) have q: "ev = Call_open \<longrightarrow> quiescent s"
    by (auto split: if_splits)
  from Cons.prems(2) obtain s1 where s1: "step e opts s ev = Some s1"
    and r: "run_single e opts s1 evs = Some s'"
    by (auto split: if_splits option.splits)
  from single_inv_step [OF Cons.prems(1) s1 q] have "single_inv opts s1" .
  from Cons.IH [OF this r] show ?case .
qed


lemma init_then_pings_iff:
  "init_then_pings p fs \<longleftrightarrow> (\<exists>n. fs = InitPayload p # replicate n Ping)"
proof
  assume "init_then_pings p fs"
  then obtain rest where fs: "fs = InitPayload p # rest" and r: "list_all (\<lambda>g. g = Ping) rest"
    by (cases fs) (auto simp: init_then_pings_def)
  from r have "rest = replicate (length rest) Ping"
    by (induction rest) simp_all
  with fs show "\<exists>n. fs = InitPayload p # replicate n Ping"
    by blast
next
  assume "\<exists>n. fs = InitPayload p # replicate n Ping"
  then show "init_then_pings p fs"
    by (auto simp: init_then_pings_def list_all_iff)
qed

text \<open>
  C3 as stated fails: \<^verbatim>\<open>open()\<close> closes nothing and clears nothing. Called on a session
  whose socket is open, it leaves that socket open beside the new one, and once the new
  one opens two heartbeat intervals are active.
\<close>

theorem open_keeps_old_channel_counterexample:
  "run sample_env (main_opts ''{}'') sys_init [Call_open, Ws_opened 0, Call_open, Ws_opened 1] =
     Some \<lparr>ws = Some 1, retries = 0, closedByClient = False, heartbeatTimer = Some 2,
       sockets =
         [\<lparr>sock_url = ''wss://example.org/ws/adapt'', readyState = OPEN,
            sent = [InitPayload ''{}'']\<rparr>,
          \<lparr>sock_url = ''wss://example.org/ws/adapt'', readyState = OPEN,
            sent = [InitPayload ''{}'']\<rparr>],
       timers = [(1, Interval (Num 20000) 0), (2, Interval (Num 20000) 1)], nextTimer = 3,
       calls = [OnStart, OnStart], delays = [], thrown = []\<rparr>"
  by (simp add: handler_defs sample_defs)

text \<open>
  C3, amended. \<^verbatim>\<open>open()\<close> adds a connecting socket and stores it in \<^verbatim>\<open>this.ws\<close>; the
  sockets that existed, the active timers and the stored heartbeat handle stay as they
  were. In a session where the caller invokes \<^verbatim>\<open>open()\<close> only when every socket is closed
  and no reconnect is pending (reconnects scheduled by the close handler included in the
  run), at any time at most one socket is not closed, it is the one in \<^verbatim>\<open>this.ws\<close>, and
  at most one timer is active.
\<close>

theorem single_channel_when_opened_once:
  "(url_ok e (ws_address e opts) \<longrightarrow>
      fst (manager_open e opts s0) = None \<and>
      sockets (snd (manager_open e opts s0)) =
        sockets s0 @ [\<lparr>sock_url = ws_address e opts, readyState = CONNECTING, sent = []\<rparr>] \<and>
      ws (snd (manager_open e opts s0)) = Some (length (sockets s0)) \<and>
      timers (snd (manager_open e opts s0)) = timers s0 \<and>
      heartbeatTimer (snd (manager_open e opts s0)) = heartbeatTimer s0) \<and>
   (run_single e opts sys_init evs = Some s \<longrightarrow>
      (\<forall>i j. i < length (sockets s) \<and> j < length (sockets s) \<and>
             readyState (sockets s ! i) \<noteq> CLOSED \<and> readyState (sockets s ! j) \<noteq> CLOSED \<longrightarrow>
             i = j \<and> ws s = Some i) \<and>
      length (timers s) \<le> 1)"
proof -
  have a: "url_ok e (ws_address e opts) \<longrightarrow>
      fst (manager_open e opts s0) = None \<and>
      sockets (snd (manager_open e opts s0)) =
        sockets s0 @ [\<lparr>sock_url = ws_address e opts, readyState = CONNECTING, sent = []\<rparr>] \<and>
      ws (snd (manager_open e opts s0)) = Some (length (sockets s0)) \<and>
      timers (snd (manager_open e opts s0)) = timers s0 \<and>
      heartbeatTimer (snd (manager_open e opts s0)) = heartbeatTimer s0"
    by (simp add: manager_open_def)
  have b: "(\<forall>i j. i < length (sockets s) \<and> j < length (sockets s) \<and>
             readyState (sockets s ! i) \<noteq> CLOSED \<and> readyState (sockets s ! j) \<noteq> CLOSED \<longrightarrow>
             i = j \<and> ws s = Some i) \<and>
      length (timers s) \<le> 1"
    if r: "run_single e opts sys_init evs = Some s"
  proof -
    have inv: "single_inv opts s"
      by (rule single_inv_run [OF single_inv_init r])
    then have c: "all_closed (butlast (sockets s))"
      by (simp add: single_inv_def)
    have one: "i = length (sockets s) - 1 \<and> ws s = Some i"
      if "i < length (sockets s)" and "readyState (sockets s ! i) \<noteq> CLOSED" for i
    proof -
      from newest_only [OF c that] obtain bs c' where "sockets s = bs @ [c']" and "i = length bs"
        by auto
      with single_inv_ws(1) [OF inv this(1)] show ?thesis by simp
    qed
    have t: "length (timers s) \<le> 1"
      using inv by (auto simp: single_inv_def hb_live_def retry_pending_def)
    from one t show ?thesis by blast
  qed
  from a b show ?thesis by blast
qed


theorem single_channel_when_opened_once_witness:
  "url_ok sample_env (ws_address sample_env (main_opts ''{}'')) \<and>
   (\<exists>s. run_single sample_env (main_opts ''{}'') sys_init
           [Call_open, Ws_opened 0, Ws_closed 0, Timer_fire 2] = Some s \<and>
        1 < length (sockets s) \<and> readyState (sockets s ! 1) \<noteq> CLOSED \<and>
        ws s = Some 1 \<and> length (timers s) \<le> 1)"
proof -
  have r: "run_single sample_env (main_opts ''{}'') sys_init
             [Call_open, Ws_opened 0, Ws_closed 0, Timer_fire 2] =
           Some \<lparr>ws = Some 1, retries = 1, closedByClient = False, heartbeatTimer = Some 1,
             sockets =
               [\<lparr>sock_url = ''wss://example.org/ws/adapt'', readyState = CLOSED,
                  sent = [InitPayload ''{}'']\<rparr>,
                \<lparr>sock_url = ''wss://example.org/ws/adapt'', readyState = CONNECTING,
                  sent = []\<rparr>],
             timers = [], nextTimer = 3, calls = [OnStart], delays = [Num 500], thrown = []\<rparr>"
    by (simp add: handler_defs sample_defs quiescent_def)
  have u: "url_ok sample_env (ws_address sample_env (main_opts ''{}''))"
    by (simp add: sample_env_def)
  show ?thesis
    using single_channel_when_opened_once [of sample_env "main_opts ''{}''" sys_init
        "[Call_open, Ws_opened 0, Ws_closed 0, Timer_fire 2]"] u r
    by simp
qed

text \<open>
  C8 as stated fails when \<^verbatim>\<open>open()\<close> is called while a socket is still connecting: the
  open handler sends to \<^verbatim>\<open>this.ws\<close>, not to the socket that opened. Below, the second
  socket opens first and receives the init payload and a ping; when the first socket
  opens, the init payload goes to the second socket again and the first one, though open,
  has received nothing.
\<close>

theorem init_resent_on_other_channel_counterexample:
  "run sample_env (main_opts ''{}'') sys_init
     [Call_open, Call_open, Ws_opened 1, Timer_fire 1, Ws_opened 0] =
     Some \<lparr>ws = Some 1, retries = 0, closedByClient = False, heartbeatTimer = Some 2,
       sockets =
         [\<lparr>sock_url = ''wss://example.org/ws/adapt'', readyState = OPEN, sent = []\<rparr>,
          \<lparr>sock_url = ''wss://example.org/ws/adapt'', readyState = OPEN,
            sent = [InitPayload ''{}'', Ping, InitPayload ''{}'']\<rparr>],
       timers = [(1, Interval (Num 20000) 1), (2, Interval (Num 20000) 0)], nextTimer = 3,
       calls = [OnStart, OnStart], delays = [], thrown = []\<rparr>"
  by (simp add: handler_defs sample_defs)

text \<open>
  C8, amended. In a session where the caller invokes \<^verbatim>\<open>open()\<close> only when every socket is
  closed and no reconnect is pending, for every socket ever created: while connecting
  nothing has been sent on it; once open, the frames sent on it are the init payload
  followed by pings only; so at any time the init payload has been sent on it not at all
  (it never opened) or exactly once, as the first frame.
\<close>

theorem init_first_when_opened_once:
  assumes "run_single e opts sys_init evs = Some s" and "i < length (sockets s)"
  shows "(readyState (sockets s ! i) = CONNECTING \<longrightarrow> sent (sockets s ! i) = []) \<and>
         (readyState (sockets s ! i) = OPEN \<longrightarrow>
            (\<exists>n. sent (sockets s ! i) = InitPayload (init opts) # replicate n Ping)) \<and>
         (sent (sockets s ! i) = [] \<or>
            (\<exists>n. sent (sockets s ! i) = InitPayload (init opts) # replicate n Ping))"
proof -
  have "single_inv opts s"
    by (rule single_inv_run [OF single_inv_init assms(1)])
  then have "list_all (frames_ok opts) (sockets s)"
    by (simp add: single_inv_def)
  with assms(2) have "frames_ok opts (sockets s ! i)"
    by (simp add: list_all_length)
  then show ?thesis
    by (cases "readyState (sockets s ! i)") (auto simp: frames_ok_def init_then_pings_iff)
qed

theorem init_first_when_opened_once_witness:
  "\<exists>s. run_single sample_env (main_opts ''{}'') sys_init
          [Call_open, Ws_opened 0, Timer_fire 1, Timer_fire 1] = Some s \<and>
       0 < length (sockets s) \<and> readyState (sockets s ! 0) = OPEN \<and>
       sent (sockets s ! 0) = [InitPayload ''{}'', Ping, Ping] \<and>
       (\<exists>n. sent (sockets s ! 0) = InitPayload (init (main_opts ''{}'')) # replicate n Ping)"
proof -
  define s where "s = \<lparr>ws = Some 0, retries = 0, closedByClient = False, heartbeatTimer = Some 1,
             sockets =
               [\<lparr>sock_url = ''wss://example.org/ws/adapt'', readyState = OPEN,
                  sent = [InitPayload ''{}'', Ping, Ping]\<rparr>],
             timers = [(1, Interval (Num 20000) 0)], nextTimer = 2, calls = [OnStart], delays = [],
             thrown = []\<rparr>"
  have r: "run_single sample_env (main_opts ''{}'') sys_init
             [Call_open, Ws_opened 0, Timer_fire 1, Timer_fire 1] = Some s"
    by (simp add: handler_defs sample_defs quiescent_def s_def)
  have l: "0 < length (sockets s)"
    by (simp add: s_def)
  have o: "readyState (sockets s ! 0) = OPEN" and f: "sent (sockets s ! 0) = [InitPayload ''{}'', Ping, Ping]"
    by (simp_all add: s_def)
  from init_first_when_opened_once [OF r l] o
  have "\<exists>n. sent (sockets s ! 0) = InitPayload (init (main_opts ''{}'')) # replicate n Ping"
    by simp
  with r l o f show ?thesis by blast
qed

subsection \<open>Heartbeat\<close>

text \<open>
  C9 as stated fails when \<^verbatim>\<open>open()\<close> is called while a socket is open: the heartbeat
  closure reads \<^verbatim>\<open>this.ws\<close> at tick time, not the socket whose opening set the interval.
  Below, the interval set by socket 0 is still active after socket 0 has closed, and its
  tick sends a ping on socket 1; and while socket 0 is open and \<^verbatim>\<open>this.ws\<close> holds the
  connecting socket 1, the tick of that interval is skipped.
\<close>

theorem heartbeat_of_other_channel_counterexample:
  "run sample_env (main_opts ''{}'') sys_init
     [Call_open, Ws_opened 0, Call_open, Ws_opened 1, Ws_closed 0] =
     Some \<lparr>ws = Some 1, retries = 1, closedByClient = False, heartbeatTimer = Some 2,
       sockets =
         [\<lparr>sock_url = ''wss://example.org/ws/adapt'', readyState = CLOSED,
            sent = [InitPayload ''{}'']\<rparr>,
          \<lparr>sock_url = ''wss://example.org/ws/adapt'', readyState = OPEN,
            sent = [InitPayload ''{}'']\<rparr>],
       timers = [(1, Interval (Num 20000) 0), (3, Timeout (Num 500))], nextTimer = 4,
       calls = [OnStart, OnStart], delays = [Num 500], thrown = []\<rparr> \<and>
   run sample_env (main_opts ''{}'') sys_init
     [Call_open, Ws_opened 0, Call_open, Ws_opened 1, Ws_closed 0, Timer_fire 1] =
     Some \<lparr>ws = Some 1, retries = 1, closedByClient = False, heartbeatTimer = Some 2,
       sockets =
         [\<lparr>sock_url = ''wss://example.org/ws/adapt'', readyState = CLOSED,
            sent = [InitPayload ''{}'']\<rparr>,
          \<lparr>sock_url = ''wss://example.org/ws/adapt'', readyState = OPEN,
            sent = [InitPayload ''{}'', Ping]\<rparr>],
       timers = [(1, Interval (Num 20000) 0), (3, Timeout (Num 500))], nextTimer = 4,
       calls = [OnStart, OnStart], delays = [Num 500], thrown = []\<rparr> \<and>
   run sample_env (main_opts ''{}'') sys_init [Call_open, Ws_opened 0, Call_open] =
     Some \<lparr>ws = Some 1, retries = 0, closedByClient = False, heartbeatTimer = Some 1,
       sockets =
         [\<lparr>sock_url = ''wss://example.org/ws/adapt'', readyState = OPEN,
            sent = [InitPayload ''{}'']\<rparr>,
          \<lparr>sock_url = ''wss://example.org/ws/adapt'', readyState = CONNECTING, sent = []\<rparr>],
       timers = [(1, Interval (Num 20000) 0)], nextTimer = 2, calls = [OnStart], delays = [],
       thrown = []\<rparr> \<and>
   run sample_env (main_opts ''{}'') sys_init [Call_open, Ws_opened 0, Call_open, Timer_fire 1] =
     run sample_env (main_opts ''{}'') sys_init [Call_open, Ws_opened 0, Call_open]"
  by (simp add: handler_defs sample_defs)

text \<open>
  C9, amended. Every firing of a heartbeat interval is a turn that raises nothing. If the
  socket held in \<^verbatim>\<open>this.ws\<close> reports \<^verbatim>\<open>OPEN\<close> at that moment, exactly one \<open>Ping\<close> is
  transmitted, on that socket, and nothing else changes; otherwise the state is left as
  it was and no frame is sent. In a session where the caller invokes \<^verbatim>\<open>open()\<close> only
  when every socket is closed and no reconnect is pending, the socket in \<^verbatim>\<open>this.ws\<close> at
  tick time is the socket whose opening set the interval: a ping is sent if and only if
  that owning socket is open, and it is sent on it.
\<close>

theorem heartbeat_only_when_open:
  assumes "map_of (timers s) t = Some (Interval ms ow)"
  shows "step e opts s (Timer_fire t) = Some (snd (heartbeat s)) \<and>
         fst (heartbeat s) = None \<and>
         (\<forall>i. ws s = Some i \<and> i < length (sockets s) \<and> readyState (sockets s ! i) = OPEN \<longrightarrow>
            snd (heartbeat s) =
              s\<lparr>sockets := (sockets s)[i := (sockets s ! i)\<lparr>sent := sent (sockets s ! i) @ [Ping]\<rparr>]\<rparr>) \<and>
         (\<not> (\<exists>i. ws s = Some i \<and> i < length (sockets s) \<and> readyState (sockets s ! i) = OPEN) \<longrightarrow>
            snd (heartbeat s) = s) \<and>
         (run_single e opts sys_init evs = Some s \<longrightarrow>
            ws s = Some ow \<and> ow < length (sockets s) \<and>
            (readyState (sockets s ! ow) = OPEN \<longrightarrow>
               snd (heartbeat s) =
                 s\<lparr>sockets := (sockets s)[ow := (sockets s ! ow)\<lparr>sent := sent (sockets s ! ow) @ [Ping]\<rparr>]\<rparr>) \<and>
            (readyState (sockets s ! ow) \<noteq> OPEN \<longrightarrow> snd (heartbeat s) = s))"
proof -
  have a: "step e opts s (Timer_fire t) = Some (snd (heartbeat s))"
    using assms by (simp add: heartbeat_no_throw finish_def)
  have b: "snd (heartbeat s) =
             s\<lparr>sockets := (sockets s)[i := (sockets s ! i)\<lparr>sent := sent (sockets s ! i) @ [Ping]\<rparr>]\<rparr>"
    if "ws s = Some i" and "i < length (sockets s)" and "readyState (sockets s ! i) = OPEN" for i
    using that by (simp add: heartbeat_def ws_send_def)
  have c: "snd (heartbeat s) = s"
    if "\<not> (\<exists>i. ws s = Some i \<and> i < length (sockets s) \<and> readyState (sockets s ! i) = OPEN)"
    using that by (auto simp: heartbeat_def split: option.splits)
  have d: "ws s = Some ow \<and> ow < length (sockets s)"
    if r: "run_single e opts sys_init evs = Some s"
  proof -
    have inv: "single_inv opts s"
      by (rule single_inv_run [OF single_inv_init r])
    have "timers s \<noteq> []"
      using assms by auto
    moreover have "\<not> retry_pending s"
      using assms by (auto simp: retry_pending_def split: if_splits)
    ultimately have "hb_live s"
      using inv by (simp add: single_inv_def)
    then obtain t' ms' where t': "timers s = [(t', Interval ms' (length (sockets s) - 1))]"
      and ne: "sockets s \<noteq> []"
      by (auto simp: hb_live_def)
    from assms t' have "ow = length (sockets s) - 1"
      by (simp split: if_splits)
    moreover have "ws s = Some (length (sockets s) - 1)"
      using inv ne by (simp add: single_inv_def)
    ultimately show ?thesis
      using ne by simp
  qed
  show ?thesis
    using a b c d heartbeat_no_throw [of s] by (intro conjI impI allI) auto
qed

theorem heartbeat_only_when_open_witness:
  "(\<exists>s. run_single sample_env (main_opts ''{}'') sys_init [Call_open, Ws_opened 0] = Some s \<and>
      map_of (timers s) 1 = Some (Interval (Num 20000) 0) \<and>
      readyState (sockets s ! 0) = OPEN \<and>
      step sample_env (main_opts ''{}'') s (Timer_fire 1) =
        Some (s\<lparr>sockets := (sockets s)[0 := (sockets s ! 0)\<lparr>sent := sent (sockets s ! 0) @ [Ping]\<rparr>]\<rparr>)) \<and>
   (\<exists>s. run_single sample_env (main_opts ''{}'') sys_init
           [Call_open, Ws_opened 0, Ws_closing 0] = Some s \<and>
      map_of (timers s) 1 = Some (Interval (Num 20000) 0) \<and>
      readyState (sockets s ! 0) \<noteq> OPEN \<and>
      step sample_env (main_opts ''{}'') s (Timer_fire 1) = Some s)"
proof -
  define s where "s = \<lparr>ws = Some 0, retries = 0, closedByClient = False, heartbeatTimer = Some 1,
       sockets = [\<lparr>sock_url = ''wss://example.org/ws/adapt'', readyState = OPEN,
                  sent = [InitPayload ''{}'']\<rparr>],
       timers = [(1, Interval (Num 20000) 0)], nextTimer = 2, calls = [OnStart], delays = [],
       thrown = []\<rparr>"
  define s' where "s' = \<lparr>ws = Some 0, retries = 0, closedByClient = False, heartbeatTimer = Some 1,
       sockets = [\<lparr>sock_url = ''wss://example.org/ws/adapt'', readyState = CLOSING,
                  sent = [InitPayload ''{}'']\<rparr>],
       timers = [(1, Interval (Num 20000) 0)], nextTimer = 2, calls = [OnStart], delays = [],
       thrown = []\<rparr>"
  have r: "run_single sample_env (main_opts ''{}'') sys_init [Call_open, Ws_opened 0] = Some s"
    by (simp add: handler_defs sample_defs quiescent_def s_def)
  have r': "run_single sample_env (main_opts ''{}'') sys_init
              [Call_open, Ws_opened 0, Ws_closing 0] = Some s'"
    by (simp add: handler_defs sample_defs quiescent_def s'_def)
  have t: "map_of (timers s) 1 = Some (Interval (Num 20000) 0)"
    and t': "map_of (timers s') 1 = Some (Interval (Num 20000) 0)"
    by (simp_all add: s_def s'_def)
  have o: "readyState (sockets s ! 0) = OPEN" and o': "readyState (sockets s' ! 0) \<noteq> OPEN"
    by (simp_all add: s_def s'_def)
  from heartbeat_only_when_open [OF t, of sample_env "main_opts ''{}''" "[Call_open, Ws_opened 0]"] r o
  have 1: "step sample_env (main_opts ''{}'') s (Timer_fire 1) =
        Some (s\<lparr>sockets := (sockets s)[0 := (sockets s ! 0)\<lparr>sent := sent (sockets s ! 0) @ [Ping]\<rparr>]\<rparr>)"
    by simp
  from heartbeat_only_when_open [OF t', of sample_env "main_opts ''{}''"
      "[Call_open, Ws_opened 0, Ws_closing 0]"] r' o'
  have 2: "step sample_env (main_opts ''{}'') s' (Timer_fire 1) = Some s'"
    by simp
  from r t o 1 r' t' o' 2 show ?thesis
    by blast
qed

subsection \<open>Stopping\<close>

lemma clear_heartbeat_no_timers:
  "timers s = [] \<Longrightarrow> clear_heartbeat s = s"
  by (simp add: clear_heartbeat_def clear_timer_def split: option.splits)

lemma ws_close_at_rest:
  assumes "list_all (\<lambda>c. readyState c = CLOSING \<or> readyState c = CLOSED) (sockets s)"
  shows "ws_close 1000 ''client stop'' i s = (None, s)"
  using assms by (auto simp: ws_close_def list_all_length)

lemma halted_step:
  assumes "halted s" and "step e opts s ev = Some s'" and "ev \<noteq> Call_open"
  shows "halted s' \<and> map sent (sockets s') = map sent (sockets s)"
proof (cases ev)
  case Call_open
  with assms(3) show ?thesis by simp
next
  case Call_stop
  have same: "s\<lparr>closedByClient := True\<rparr> = s"
    using assms(1) by (simp add: halted_def)
  have "stop s = (None, s)"
    using assms(1) ws_close_at_rest [of s]
    by (simp add: stop_def same halted_def clear_heartbeat_no_timers Let_def split: option.splits)
  with assms Call_stop show ?thesis by (simp add: finish_def)
next
  case (Ws_opened i)
  with assms show ?thesis
    by (auto simp: halted_def list_all_length split: if_splits)
next
  case (Ws_message i raw)
  with assms show ?thesis
    by (auto simp: halted_def list_all_length split: if_splits)
next
  case (Ws_errored i)
  with assms show ?thesis
    by (auto simp: halted_def onerror_def invoke_opt_def invoke_def finish_def split: if_splits)
next
  case (Ws_closing i)
  with assms show ?thesis
    by (auto simp: halted_def list_all_length split: if_splits)
next
  case (Ws_closed i)
  with assms(2) have l: "i < length (sockets s)"
    and s': "s' = finish (onclose opts (set_state i CLOSED s))"
    by (auto split: if_splits)
  have c: "clear_heartbeat (set_state i CLOSED s) = set_state i CLOSED s"
    using assms(1) by (simp add: clear_heartbeat_no_timers set_state_def halted_def)
  have "closedByClient (set_state i CLOSED s)"
    using assms(1) by (simp add: set_state_def halted_def)
  then have "s' = set_state i CLOSED s"
    by (simp add: s' onclose_def c finish_def)
  moreover have "map sent (sockets (set_state i CLOSED s)) = map sent (sockets s)"
    using l by (simp add: set_state_def map_update list_update_same_conv)
  moreover have "halted (set_state i CLOSED s)"
    using assms(1) l
    by (auto simp: halted_def set_state_def list_all_length nth_list_update)
  ultimately show ?thesis by simp
next
  case (Timer_fire t)
  with assms show ?thesis
    by (simp add: halted_def)
qed

lemma halted_run:
  "halted s \<Longrightarrow> run e opts s evs = Some s' \<Longrightarrow> Call_open \<notin> set evs \<Longrightarrow>
   halted s' \<and> map sent (sockets s') = map sent (sockets s)"
proof (induction evs arbitrary: s)
  case Nil
  then show ?case by simp
next
  case (Cons ev evs)
  from Cons.prems(2) obtain s1 where s1: "step e opts s ev = Some s1"
    and r: "run e opts s1 evs = Some s'"
    by (auto split: option.splits)
  have n: "ev \<noteq> Call_open" and n': "Call_open \<notin> set evs"
    using Cons.prems(3) by auto
  from halted_step [OF Cons.prems(1) s1 n] Cons.IH [OF _ r n'] show ?case
    by simp
qed

lemma stop_halts:
  assumes "single_inv opts s" and "\<not> retry_pending s"
  shows "halted (finish (stop s))"
proof -
  define s2 where "s2 = clear_heartbeat (s\<lparr>closedByClient := True\<rparr>)"
  have i1: "single_inv opts (s\<lparr>closedByClient := True\<rparr>)"
    using assms(1) by (simp add: single_inv_def hb_live_def retry_pending_def)
  have rp: "retry_pending (s\<lparr>closedByClient := True\<rparr>) = retry_pending s"
    by (simp add: retry_pending_def)
  have t2: "timers s2 = []"
    unfolding s2_def using clear_heartbeat_timers [OF i1] rp assms(2) by simp
  have f2: "sockets s2 = sockets s" "ws s2 = ws s" "closedByClient s2"
    unfolding s2_def by (simp_all add: clear_heartbeat_fields)
  have st: "stop s = (case ws s2 of None \<Rightarrow> (None, s2) | Some i \<Rightarrow> ws_close 1000 ''client stop'' i s2)"
    unfolding stop_def s2_def Let_def by (rule refl)
  show ?thesis
  proof (cases "sockets s" rule: rev_cases)
    case Nil
    with assms(1) have "ws s = None" by (simp add: single_inv_def)
    then have "finish (stop s) = s2" by (simp add: st f2 finish_def)
    then show ?thesis using t2 f2 Nil by (simp add: halted_def)
  next
    case (snoc bs c)
    note w = single_inv_ws [OF assms(1) snoc]
    have b: "list_all (\<lambda>c. readyState c = CLOSING \<or> readyState c = CLOSED) bs"
      using w(2) by (simp add: all_closed_def list_all_iff)
    show ?thesis
    proof (cases "readyState c = CONNECTING \<or> readyState c = OPEN")
      case False
      then have "finish (stop s) = s2"
        by (simp add: st f2 w(1) snoc ws_close_def finish_def)
      moreover have "readyState c = CLOSING \<or> readyState c = CLOSED"
        using False by (cases "readyState c") simp_all
      ultimately show ?thesis using t2 f2 b by (simp add: halted_def snoc)
    next
      case True
      then have h: "finish (stop s) = s2\<lparr>sockets := bs @ [c\<lparr>readyState := CLOSING\<rparr>]\<rparr>"
        by (auto simp: st f2 w(1) snoc ws_close_def set_state_def finish_def)
      show ?thesis
        unfolding h using t2 f2 b by (simp add: halted_def)
    qed
  qed
qed

lemma stop_keeps_frames: "map sent (sockets (finish (stop s))) = map sent (sockets s)"
proof -
  have c: "sockets (clear_heartbeat (s\<lparr>closedByClient := True\<rparr>)) = sockets s"
    by (simp add: clear_heartbeat_fields)
  have u: "map sent (xs[i := (xs ! i)\<lparr>readyState := st\<rparr>]) = map sent xs"
    if "i < length xs" for xs :: "socket list" and i st
    using that by (simp add: map_update list_update_same_conv)
  show ?thesis
    using c u
    by (auto simp: stop_def ws_close_def set_state_def finish_def Let_def split: option.splits)
qed

lemma stop_final_unless_retry_pending:
  assumes "run_single e opts sys_init evs0 = Some s" and "\<not> retry_pending s"
    and "run e opts (finish (stop s)) evs = Some s'" and "Call_open \<notin> set evs"
  shows "fst (stop s) = None \<and> timers s' = [] \<and> map sent (sockets s') = map sent (sockets s)"
proof -
  have "single_inv opts s"
    by (rule single_inv_run [OF single_inv_init assms(1)])
  from stop_halts [OF this assms(2)] have "halted (finish (stop s))" .
  from halted_run [OF this assms(3,4)] show ?thesis
    by (simp add: stop_no_throw stop_keeps_frames halted_def)
qed

text \<open>
  C1 holds in part. \<^verbatim>\<open>stop()\<close> never throws (\<open>stop_no_throw\<close>), and when no reconnect is
  pending it is final (\<open>stop_final_unless_retry_pending\<close>). With a reconnect pending it is
  not: \<^verbatim>\<open>stop()\<close> sets the flag and leaves the timeout active; the timeout calls
  \<^verbatim>\<open>open()\<close>, which does not read the flag, and the open handler resets it. The run
  below is an unexpected closure, then \<^verbatim>\<open>stop()\<close>, then the timeout: a second socket is
  created, receives the init payload and a heartbeat ping, and \<^verbatim>\<open>closedByClient\<close> is false
  again.
\<close>

theorem stop_leaves_retry_timer:
  "run sample_env (main_opts ''{}'') sys_init [Call_open, Ws_opened 0, Ws_closed 0, Call_stop] =
     Some \<lparr>ws = Some 0, retries = 1, closedByClient = True, heartbeatTimer = Some 1,
       sockets =
         [\<lparr>sock_url = ''wss://example.org/ws/adapt'', readyState = CLOSED,
            sent = [InitPayload ''{}'']\<rparr>],
       timers = [(2, Timeout (Num 500))], nextTimer = 3, calls = [OnStart], delays = [Num 500],
       thrown = []\<rparr> \<and>
   run sample_env (main_opts ''{}'') sys_init
     [Call_open, Ws_opened 0, Ws_closed 0, Call_stop, Timer_fire 2, Ws_opened 1, Timer_fire 3] =
     Some \<lparr>ws = Some 1, retries = 0, closedByClient = False, heartbeatTimer = Some 3,
       sockets =
         [\<lparr>sock_url = ''wss://example.org/ws/adapt'', readyState = CLOSED,
            sent = [InitPayload ''{}'']\<rparr>,
          \<lparr>sock_url = ''wss://example.org/ws/adapt'', readyState = OPEN,
            sent = [InitPayload ''{}'', Ping]\<rparr>],
       timers = [(3, Interval (Num 20000) 1)], nextTimer = 4, calls = [OnStart, OnStart],
       delays = [Num 500], thrown = []\<rparr>"
  by (simp add: handler_defs sample_defs)

end
